theory Spec2Isabelle
  imports Complex_Main "HOL-Library.Word" "HOL-Library.AList"
begin

unbundle bit_operations_syntax

section \<open>The PCM encoder worker (audio_recorder.js, pcm_s16leEncoder)\<close>

type_synonym byte = "8 word"

text \<open>
  A sample of the Float32Array handed to \<open>encode\<close>. A finite float is a rational; the
  product \<open>buffer[i] * 32768\<close> is computed on doubles and is exact for every finite
  32-bit float, so \<open>Math.floor\<close> of it is the floor of the rational product.
\<close>

datatype number = Finite rat | NaN | PosInfinity | NegInfinity

text \<open>
  \<open>Math.max(-32768, Math.min(32767, Math.floor(buffer[i] * 32768)))\<close>, as the integer
  that \<open>setInt16\<close> stores (\<open>Math.min\<close> and \<open>Math.max\<close> propagate NaN, which
  \<open>setInt16\<close> stores as 0).
\<close>

fun sample :: "number \<Rightarrow> int" where
  "sample (Finite x) = max (- 32768) (min 32767 \<lfloor>x * 32768\<rfloor>)"
| "sample NaN = 0"
| "sample PosInfinity = 32767"
| "sample NegInfinity = - 32768"

text \<open>\<open>view.setInt16(byteOffset, sample, true)\<close>: the two bytes written, low byte first.\<close>

definition setInt16 :: "int \<Rightarrow> byte list" where
  "setInt16 v = (let w = (word_of_int v :: 16 word) in [ucast w, ucast (drop_bit 8 w)])"

text \<open>The first loop of \<open>encode\<close>: the Uint8Array of \<open>length * 2\<close> bytes, filled sample by sample.\<close>

fun fill :: "number list \<Rightarrow> byte list" where
  "fill [] = []"
| "fill (x # xs) = setInt16 (sample x) @ fill xs"

text \<open>\<open>view.getInt16(off)\<close> without the little-endian flag: a big-endian read.\<close>

definition getInt16 :: "byte list \<Rightarrow> nat \<Rightarrow> int" where
  "getInt16 array off = sint (push_bit 8 (ucast (array ! off) :: 16 word) OR ucast (array ! (off + 1)))"

text \<open>\<open>while (i < length && view.getInt16(i * 2) == 0) i++\<close>; the value of \<open>i\<close> after the loop.\<close>

function scan :: "byte list \<Rightarrow> nat \<Rightarrow> nat \<Rightarrow> nat" where
  "scan array len i = (if i < len \<and> getInt16 array (i * 2) = 0 then scan array len (i + 1) else i)"
  by pat_completeness auto
termination
  by (relation "measure (\<lambda>(array, len, i). len - i)") auto

declare scan.simps [simp del]

record encoder =
  buffers :: "byte list list"
  initialZeros :: bool

text \<open>
  \<open>encode(buffer, removeInitialZeros)\<close>. The assignment \<open>buffer = buffer.slice(i)\<close> rebinds
  the parameter, which is not read again; the chunk pushed is \<open>array\<close>.
\<close>

definition encode :: "number list \<Rightarrow> bool \<Rightarrow> encoder \<Rightarrow> encoder" where
  "encode buffer removeInitialZeros st =
     (let len = length buffer;
          array = fill buffer
      in if removeInitialZeros \<and> initialZeros st then
           (let i = scan array len 0
            in if i = len then st
               else (let buffer' = (if i > 0 then drop i buffer else buffer)
                     in st\<lparr>buffers := buffers st @ [array], initialZeros := False\<rparr>))
         else st\<lparr>buffers := buffers st @ [array]\<rparr>)"

text \<open>
  The inner loop of \<open>dump\<close>: from \<open>numBuffers\<close> and \<open>length\<close> so far, the values of both
  when the loop is left.
\<close>

function group_scan :: "int \<Rightarrow> byte list list \<Rightarrow> nat \<Rightarrow> nat \<Rightarrow> nat \<Rightarrow> nat \<times> nat" where
  "group_scan maxOutputSize bufs buffersPos numBuffers len =
     (if buffersPos + numBuffers < length bufs then
        (let buffer = bufs ! (buffersPos + numBuffers)
         in if numBuffers > 0 \<and> int (len + length buffer) > maxOutputSize
            then (numBuffers, len)
            else group_scan maxOutputSize bufs buffersPos (numBuffers + 1) (len + length buffer))
      else (numBuffers, len))"
  by pat_completeness auto
termination
  by (relation "measure (\<lambda>(m, bufs, p, n, l). length bufs - (p + n))") auto

declare group_scan.simps [simp del]

text \<open>\<open>array.set(buffer, offset)\<close> on a typed array: overwrites the bytes from \<open>offset\<close>.\<close>

definition array_set :: "byte list \<Rightarrow> byte list \<Rightarrow> nat \<Rightarrow> byte list" where
  "array_set array buffer offset = take offset array @ buffer @ drop (offset + length buffer) array"

text \<open>The copy loop \<open>for (let i = 0; i < numBuffers; ++i)\<close>: the array after the loop.\<close>

function copy_loop :: "byte list list \<Rightarrow> nat \<Rightarrow> nat \<Rightarrow> nat \<Rightarrow> nat \<Rightarrow> byte list \<Rightarrow> byte list" where
  "copy_loop bufs buffersPos numBuffers i offset array =
     (if i < numBuffers then
        (let buffer = bufs ! (buffersPos + i)
         in copy_loop bufs buffersPos numBuffers (i + 1) (offset + length buffer)
              (array_set array buffer offset))
      else array)"
  by pat_completeness auto
termination
  by (relation "measure (\<lambda>(bufs, p, n, i, off, a). n - i)") auto

declare copy_loop.simps [simp del]

lemma group_scan_mono: "numBuffers \<le> fst (group_scan m bufs p numBuffers len)"
proof (induction m bufs p numBuffers len rule: group_scan.induct)
  case (1 m bufs p n len)
  show ?case
  proof (cases "p + n < length bufs \<and> \<not> (n > 0 \<and> int (len + length (bufs ! (p + n))) > m)")
    case True
    then have "n + 1 \<le> fst (group_scan m bufs p (n + 1) (len + length (bufs ! (p + n))))"
      using "1.IH" by simp
    then show ?thesis
      using True by (subst group_scan.simps) (simp add: Let_def)
  next
    case False
    then show ?thesis
      by (subst group_scan.simps) (auto simp: Let_def)
  qed
qed

lemma group_scan_first: "p < length bufs \<Longrightarrow> 0 < fst (group_scan m bufs p 0 0)"
proof -
  assume "p < length bufs"
  then have "group_scan m bufs p 0 0 = group_scan m bufs p 1 (length (bufs ! p))"
    by (subst group_scan.simps) (simp add: Let_def)
  moreover have "1 \<le> fst (group_scan m bufs p 1 (length (bufs ! p)))"
    by (rule group_scan_mono)
  ultimately show ?thesis by simp
qed

text \<open>The outer loop \<open>while (buffersPos < buffers.length)\<close>: the frames pushed, in order.\<close>

function dump_loop :: "int \<Rightarrow> byte list list \<Rightarrow> nat \<Rightarrow> byte list list \<Rightarrow> byte list list" where
  "dump_loop maxOutputSize bufs buffersPos outputBuffers =
     (if buffersPos < length bufs then
        (case group_scan maxOutputSize bufs buffersPos 0 0 of
           (numBuffers, len) \<Rightarrow>
             (let array = copy_loop bufs buffersPos numBuffers 0 0 (replicate len 0)
              in dump_loop maxOutputSize bufs (buffersPos + numBuffers) (outputBuffers @ [array])))
      else outputBuffers)"
  by pat_completeness auto
termination
proof (relation "measure (\<lambda>(m, bufs, p, out). length bufs - p)", goal_cases)
  case 1
  show ?case by simp
next
  case (2 m bufs p out n len array)
  from 2(1) have "0 < fst (group_scan m bufs p 0 0)"
    by (rule group_scan_first)
  with 2(2) have "0 < n"
    by (simp add: prod_eq_iff)
  with 2(1) show ?case by simp
qed

declare dump_loop.simps [simp del]

definition dump :: "int \<Rightarrow> bool \<Rightarrow> encoder \<Rightarrow> byte list list \<times> encoder" where
  "dump maxOutputSize removeInitialZeros st =
     (let outputBuffers = dump_loop maxOutputSize (buffers st) 0 [];
          outputBuffers' =
            (if length outputBuffers = 0 \<and> removeInitialZeros \<and> initialZeros st
             then outputBuffers @ [[]] else outputBuffers)
      in (outputBuffers', st\<lparr>buffers := []\<rparr>))"


section \<open>Values exchanged with the host (web_voice.js)\<close>

text \<open>
  A value produced by \<open>JSON.parse\<close> or by reading a property of such a value
  (\<open>JUndefined\<close> is what reading an absent property gives). Strings are lists of code
  units below 256; an object is the list of its own properties, each key once.
\<close>

datatype json =
    JUndefined
  | JNull
  | JBool bool
  | JNum rat
  | JStr string
  | JArr "json list"
  | JObj "(string \<times> json) list"

text \<open>What a handler can throw: a thrown string, a TypeError, or the SyntaxError of \<open>JSON.parse\<close>.\<close>

datatype exception = Thrown string | TypeError | SyntaxError

datatype outcome = Returned | Threw exception

text \<open>
  \<open>v.k\<close> for the property names the code reads (\<open>t s d spk nm fw nfw fpt tpt spks\<close>, none
  of which is inherited from a prototype): a TypeError on \<open>null\<close> and \<open>undefined\<close>, the own
  property of an object, \<open>undefined\<close> otherwise.
\<close>

fun getprop :: "json \<Rightarrow> string \<Rightarrow> exception + json" where
  "getprop JUndefined k = Inl TypeError"
| "getprop JNull k = Inl TypeError"
| "getprop (JObj kvs) k = Inr (case map_of kvs k of Some v \<Rightarrow> v | None \<Rightarrow> JUndefined)"
| "getprop v k = Inr JUndefined"

text \<open>
  The elements visited by \<open>v.forEach(...)\<close>: those of an array; any other value has no
  callable \<open>forEach\<close>, and the call throws a TypeError.
\<close>

fun forEach_elements :: "json \<Rightarrow> exception + json list" where
  "forEach_elements (JArr xs) = Inr xs"
| "forEach_elements v = Inl TypeError"

text \<open>\<open>Object.prototype.hasOwnProperty.call(v, k)\<close> for the key \<open>spks\<close>.\<close>

fun hasOwnProperty :: "json \<Rightarrow> string \<Rightarrow> exception + bool" where
  "hasOwnProperty JUndefined k = Inl TypeError"
| "hasOwnProperty JNull k = Inl TypeError"
| "hasOwnProperty (JObj kvs) k = Inr (map_of kvs k \<noteq> None)"
| "hasOwnProperty v k = Inr False"

text \<open>Sequencing of steps that can throw: the first exception ends the evaluation.\<close>

definition and_then :: "exception + 'a \<Rightarrow> ('a \<Rightarrow> exception + 'b) \<Rightarrow> exception + 'b" where
  "and_then r f = (case r of Inl e \<Rightarrow> Inl e | Inr v \<Rightarrow> f v)"

section \<open>The Result and its accumulation\<close>

text \<open>The field \<open>text\<close> of a word is \<open>word_text\<close> here, and the field \<open>speaker\<close> of a speaker \<open>speaker_id\<close>.\<close>

record Word =
  word_text :: json
  start_ms :: json
  duration_ms :: json
  speaker :: json
  is_final :: bool

record Speaker =
  speaker_id :: json
  name :: json

record Result =
  words :: "Word list"
  final_proc_time_ms :: json
  total_proc_time_ms :: json
  speakers :: "(json \<times> Speaker) list"

definition wordFromJson :: "json \<Rightarrow> bool \<Rightarrow> exception + Word" where
  "wordFromJson jsWord isFinal =
     and_then (getprop jsWord ''t'') (\<lambda>t.
     and_then (getprop jsWord ''s'') (\<lambda>s.
     and_then (getprop jsWord ''d'') (\<lambda>d.
     and_then (getprop jsWord ''spk'') (\<lambda>spk.
       Inr \<lparr>word_text = t, start_ms = s, duration_ms = d, speaker = spk, is_final = isFinal\<rparr>))))"

text \<open>The body of \<open>response.fw.forEach\<close> and \<open>response.nfw.forEach\<close>: push one word per element.\<close>

fun push_words :: "json list \<Rightarrow> bool \<Rightarrow> Word list \<Rightarrow> exception + Word list" where
  "push_words [] isFinal ws = Inr ws"
| "push_words (jsWord # rest) isFinal ws =
     (case wordFromJson jsWord isFinal of
        Inl e \<Rightarrow> Inl e
      | Inr w \<Rightarrow> push_words rest isFinal (ws @ [w]))"

text \<open>
  \<open>Map.prototype.set\<close>: keys are compared by value when they are primitive, and by
  identity when they are objects, so an object key parsed from the message is always new.
\<close>

fun is_primitive :: "json \<Rightarrow> bool" where
  "is_primitive (JArr xs) = False"
| "is_primitive (JObj kvs) = False"
| "is_primitive v = True"

definition map_set :: "json \<Rightarrow> Speaker \<Rightarrow> (json \<times> Speaker) list \<Rightarrow> (json \<times> Speaker) list" where
  "map_set k v m = (if is_primitive k then AList.update k v m else m @ [(k, v)])"

fun set_speakers :: "json list \<Rightarrow> (json \<times> Speaker) list \<Rightarrow> exception + (json \<times> Speaker) list" where
  "set_speakers [] m = Inr m"
| "set_speakers (jsSpeaker # rest) m =
     and_then (getprop jsSpeaker ''spk'') (\<lambda>spk.
     and_then (getprop jsSpeaker ''nm'') (\<lambda>nm.
       set_speakers rest (map_set spk \<lparr>speaker_id = spk, name = nm\<rparr> m)))"

definition resultFromResponse :: "json \<Rightarrow> exception + Result" where
  "resultFromResponse response =
     and_then (getprop response ''fw'') (\<lambda>fw.
     and_then (forEach_elements fw) (\<lambda>fws.
     and_then (push_words fws True []) (\<lambda>words1.
     and_then (getprop response ''nfw'') (\<lambda>nfw.
     and_then (forEach_elements nfw) (\<lambda>nfws.
     and_then (push_words nfws False words1) (\<lambda>words2.
     and_then (hasOwnProperty response ''spks'') (\<lambda>has.
     and_then (if has
               then and_then (getprop response ''spks'') (\<lambda>spks.
                    and_then (forEach_elements spks) (\<lambda>el. set_speakers el []))
               else Inr []) (\<lambda>speakers'.
     and_then (getprop response ''fpt'') (\<lambda>fpt.
     and_then (getprop response ''tpt'') (\<lambda>tpt.
       Inr \<lparr>words = words2, final_proc_time_ms = fpt, total_proc_time_ms = tpt,
            speakers = speakers'\<rparr>))))))))))"

definition initialResult :: Result where
  "initialResult = \<lparr>words = [], final_proc_time_ms = JNum 0, total_proc_time_ms = JNum 0, speakers = []\<rparr>"

text \<open>\<open>while (words.length > 0 && !words[words.length - 1].is_final) words.pop()\<close>.\<close>

function pop_loop :: "Word list \<Rightarrow> Word list" where
  "pop_loop ws = (if length ws > 0 \<and> \<not> is_final (ws ! (length ws - 1)) then pop_loop (butlast ws) else ws)"
  by pat_completeness auto
termination
  by (relation "measure length") auto

declare pop_loop.simps [simp del]

text \<open>\<open>_updateResult(newResult)\<close> on the Result held by the session.\<close>

definition updateResult :: "Result \<Rightarrow> Result \<Rightarrow> Result" where
  "updateResult result newResult =
     result\<lparr>words := pop_loop (words result) @ words newResult,
            final_proc_time_ms := final_proc_time_ms newResult,
            total_proc_time_ms := total_proc_time_ms newResult,
            speakers := speakers newResult\<rparr>"

section \<open>The session (web_voice.js, class RecordTranscribe)\<close>

datatype State =
    Init
  | RequestingMedia
  | OpeningWebSocket
  | Running
  | FinishingRecording
  | FinishingProcessing
  | FinishingEarly
  | Finished
  | Error
  | Canceled

definition isInactiveState :: "State \<Rightarrow> bool" where
  "isInactiveState s = (s = Init \<or> s = Finished \<or> s = Error \<or> s = Canceled)"

definition isWebSocketState :: "State \<Rightarrow> bool" where
  "isWebSocketState s =
     (s = OpeningWebSocket \<or> s = Running \<or> s = FinishingRecording \<or> s = FinishingProcessing)"

text \<open>
  The recorder object held by the session; of the recorder only \<open>getSampleRate()\<close> is read
  by the session, which returns the sample rate of the audio context.
\<close>

datatype MediaRecorder = MediaRecorder (getSampleRate: rat)

text \<open>
  The fields of a RecordTranscribe object (the leading underscore of the source names is
  dropped). Configuration fields have the types their setters document; a callback field
  is \<open>True\<close> when a callback is registered (not \<open>null\<close>); \<open>None\<close> is \<open>null\<close>.
\<close>

record RecordTranscribe =
  state :: State
  apiKey :: "string option"
  includeNonFinal :: bool
  enableEndpointDetection :: bool
  speechContext :: json
  enableStreamingSpeakerDiarization :: bool
  enableGlobalSpeakerDiarization :: bool
  minNumSpeakers :: int
  maxNumSpeakers :: int
  enableSpeakerIdentification :: bool
  candSpeakerNames :: "string list"
  enableProfanityFilter :: bool
  contentModerationPhrases :: "string list"
  model :: string
  enableDictation :: bool
  onStarted :: bool
  onPartialResult :: bool
  onFinished :: bool
  onError :: bool
  webSocketUri :: string
  stream :: "unit option"
  mediaRecorder :: "MediaRecorder option"
  webSocket :: "string option"
  result :: Result
  queuedMessages :: "byte list list option"

text \<open>What \<open>webSocket.send\<close> is given: the text of \<open>JSON.stringify\<close> of a value, a text, or a frame.\<close>

datatype message = Json json | Text string | Binary "byte list"

text \<open>What a handler does to the world outside the session object, in order.\<close>

datatype effect =
    GetUserMedia
  | NewMediaRecorder
  | MediaRecorderStart
  | MediaRecorderStop
  | MediaRecorderTerminateWorker
  | StopTracks
  | NewWebSocket string
  | WebSocketSend message
  | WebSocketClose
  | ConsoleError string
  | CallOnStarted
  | CallOnPartialResult Result
  | CallOnFinished
  | CallOnError string string

text \<open>
  What a method of a session reads and writes: the object itself, the module variable
  \<open>recordTranscribeActive\<close>, and the effects performed so far.
\<close>

record ctx =
  this :: RecordTranscribe
  recordTranscribeActive :: bool
  trace :: "effect list"

definition emit :: "effect \<Rightarrow> ctx \<Rightarrow> ctx" where
  "emit e c = c\<lparr>trace := trace c @ [e]\<rparr>"

definition new_RecordTranscribe :: RecordTranscribe where
  "new_RecordTranscribe =
     \<lparr>state = Init, apiKey = None, includeNonFinal = False, enableEndpointDetection = False,
      speechContext = JObj [], enableStreamingSpeakerDiarization = False,
      enableGlobalSpeakerDiarization = False, minNumSpeakers = 0, maxNumSpeakers = 0,
      enableSpeakerIdentification = False, candSpeakerNames = [],
      enableProfanityFilter = False, contentModerationPhrases = [], model = [],
      enableDictation = False, onStarted = False, onPartialResult = False,
      onFinished = False, onError = False,
      webSocketUri = ''wss://api.soniox.com/transcribe-websocket'',
      stream = None, mediaRecorder = None, webSocket = None, result = initialResult,
      queuedMessages = None\<rparr>"

definition start :: "ctx \<Rightarrow> outcome \<times> ctx" where
  "start c =
     (if state (this c) \<noteq> Init then (Threw (Thrown ''start() may only be called once''), c)
      else if recordTranscribeActive c
        then (Threw (Thrown ''only one RecordTranscribe may be active at a time''), c)
      else if apiKey (this c) = None
        then (Threw (Thrown ''API key not set, call setApiKey first''), c)
      else (let c1 = emit GetUserMedia c;
                c2 = c1\<lparr>recordTranscribeActive := True\<rparr>
            in (Returned, c2\<lparr>this := (this c2)\<lparr>state := RequestingMedia\<rparr>\<rparr>)))"

definition closeWebSocket :: "ctx \<Rightarrow> ctx" where
  "closeWebSocket c =
     (case webSocket (this c) of
        None \<Rightarrow> c
      | Some ws \<Rightarrow> (let c1 = emit WebSocketClose c in c1\<lparr>this := (this c1)\<lparr>webSocket := None\<rparr>\<rparr>))"

definition closeMedia :: "ctx \<Rightarrow> ctx" where
  "closeMedia c =
     (let c1 = (case mediaRecorder (this c) of
                  None \<Rightarrow> c
                | Some mr \<Rightarrow>
                    (let c' = emit MediaRecorderTerminateWorker (emit MediaRecorderStop c)
                     in c'\<lparr>this := (this c')\<lparr>mediaRecorder := None\<rparr>\<rparr>))
      in (case stream (this c1) of
            None \<Rightarrow> c1
          | Some s \<Rightarrow> (let c' = emit StopTracks c1 in c'\<lparr>this := (this c')\<lparr>stream := None\<rparr>\<rparr>)))"

definition closeResources :: "ctx \<Rightarrow> ctx" where
  "closeResources c =
     (let c1 = closeMedia (closeWebSocket c) in c1\<lparr>this := (this c1)\<lparr>queuedMessages := None\<rparr>\<rparr>)"

definition handleError :: "string \<Rightarrow> string \<Rightarrow> ctx \<Rightarrow> ctx" where
  "handleError status message c =
     (let c1 = closeResources c;
          c2 = c1\<lparr>this := (this c1)\<lparr>state := Error\<rparr>\<rparr>;
          c3 = c2\<lparr>recordTranscribeActive := False\<rparr>
      in if onError (this c3) then emit (CallOnError status message) c3 else c3)"

definition handleFinished :: "ctx \<Rightarrow> ctx" where
  "handleFinished c =
     (let c1 = closeResources c;
          c2 = c1\<lparr>this := (this c1)\<lparr>state := Finished\<rparr>\<rparr>;
          c3 = c2\<lparr>recordTranscribeActive := False\<rparr>
      in if onFinished (this c3) then emit CallOnFinished c3 else c3)"

text \<open>
  \<open>_onGetUserMediaSuccess(stream)\<close>; \<open>rate\<close> is the sample rate of the audio context the
  new recorder reports.
\<close>

definition onGetUserMediaSuccess :: "rat \<Rightarrow> ctx \<Rightarrow> outcome \<times> ctx" where
  "onGetUserMediaSuccess rate c =
     (if state (this c) \<noteq> RequestingMedia then (Returned, emit StopTracks c)
      else (let c1 = emit MediaRecorderStart (emit NewMediaRecorder c);
                c2 = emit (NewWebSocket (webSocketUri (this c1))) c1
            in (Returned,
                c2\<lparr>this := (this c2)\<lparr>stream := Some (),
                                     mediaRecorder := Some (MediaRecorder rate),
                                     webSocket := Some (webSocketUri (this c2)),
                                     queuedMessages := Some [],
                                     state := OpeningWebSocket\<rparr>\<rparr>)))"

text \<open>\<open>_onMediaRecorderData(event)\<close>; \<open>data\<close> is \<open>event.data\<close>, a frame of the encoder.\<close>

definition onMediaRecorderData :: "byte list \<Rightarrow> ctx \<Rightarrow> outcome \<times> ctx" where
  "onMediaRecorderData data c =
     (if state (this c) = OpeningWebSocket then
        (case queuedMessages (this c) of
           None \<Rightarrow> (Threw TypeError, c)
         | Some q \<Rightarrow>
             if length q < 100
             then (Returned, c\<lparr>this := (this c)\<lparr>queuedMessages := Some (q @ [data])\<rparr>\<rparr>)
             else (Returned, emit (ConsoleError ''max queuedMessages size exceeded'') c))
      else if state (this c) = Running \<or> state (this c) = FinishingRecording then
        (case webSocket (this c) of
           None \<Rightarrow> (Threw TypeError, c)
         | Some ws \<Rightarrow> (Returned, emit (WebSocketSend (Binary data)) c))
      else (Returned, c))"

text \<open>The object \<open>request\<close> built by \<open>_onWebSocketOpen\<close>, properties in insertion order.\<close>

definition request :: "RecordTranscribe \<Rightarrow> rat \<Rightarrow> (string \<times> json) list" where
  "request s sampleRate =
     [(''api_key'', (case apiKey s of None \<Rightarrow> JNull | Some k \<Rightarrow> JStr k)),
      (''sample_rate_hertz'', JNum (of_int \<lfloor>sampleRate + 1 / 2\<rfloor>)),
      (''include_nonfinal'', JBool (includeNonFinal s)),
      (''speech_context'', speechContext s)]
     @ (if enableEndpointDetection s then [(''enable_endpoint_detection'', JBool True)] else [])
     @ (if enableStreamingSpeakerDiarization s
        then [(''enable_streaming_speaker_diarization'', JBool True)] else [])
     @ (if enableGlobalSpeakerDiarization s
        then [(''enable_global_speaker_diarization'', JBool True)] else [])
     @ (if minNumSpeakers s \<noteq> 0
        then [(''min_num_speakers'', JNum (of_int (minNumSpeakers s)))] else [])
     @ (if maxNumSpeakers s \<noteq> 0
        then [(''max_num_speakers'', JNum (of_int (maxNumSpeakers s)))] else [])
     @ (if enableSpeakerIdentification s
        then [(''enable_speaker_identification'', JBool True),
              (''cand_speaker_names'', JArr (map JStr (candSpeakerNames s)))] else [])
     @ (if enableProfanityFilter s then [(''enable_profanity_filter'', JBool True)] else [])
     @ (if length (contentModerationPhrases s) \<noteq> 0
        then [(''content_moderation_phrases'', JArr (map JStr (contentModerationPhrases s)))]
        else [])
     @ (if enableDictation s then [(''enable_dictation'', JBool True)] else [])
     @ (if model s \<noteq> [] then [(''model'', JStr (model s))] else [])"

text \<open>The loop \<open>for (let i = 0; i < this._queuedMessages.length; ++i)\<close> of \<open>_onWebSocketOpen\<close>.\<close>

fun send_queued :: "byte list list \<Rightarrow> ctx \<Rightarrow> ctx" where
  "send_queued [] c = c"
| "send_queued (m # ms) c = send_queued ms (emit (WebSocketSend (Binary m)) c)"

definition onWebSocketOpen :: "ctx \<Rightarrow> outcome \<times> ctx" where
  "onWebSocketOpen c =
     (if state (this c) \<noteq> OpeningWebSocket then (Returned, c)
      else (case mediaRecorder (this c) of
              None \<Rightarrow> (Threw TypeError, c)
            | Some mr \<Rightarrow>
               (case webSocket (this c) of
                  None \<Rightarrow> (Threw TypeError, c)
                | Some ws \<Rightarrow>
                   (let c1 = emit (WebSocketSend (Json (JObj (request (this c) (getSampleRate mr))))) c
                    in (case queuedMessages (this c1) of
                          None \<Rightarrow> (Threw TypeError, c1)
                        | Some q \<Rightarrow>
                           (let c2 = send_queued q c1;
                                c3 = c2\<lparr>this := (this c2)\<lparr>queuedMessages := None\<rparr>\<rparr>;
                                c4 = c3\<lparr>this := (this c3)\<lparr>state := Running\<rparr>\<rparr>
                            in (Returned,
                                if onStarted (this c4) then emit CallOnStarted c4 else c4)))))))"

text \<open>
  \<open>StatusMessageRegex.exec(reason)\<close> for the pattern
  \<^verbatim>\<open>^<([a-zA-Z0-9_\-]+)> *(([^ ]|$).*)$\<close> (no flags): the captures 1 and 2 of the match, or
  \<open>None\<close> for \<open>null\<close>. The run of tag characters must be the longest one, since \<open>>\<close> is
  not a tag character; so must the run of spaces, since what follows it is a character
  other than a space or the end of the input; and \<open>.\<close> matches no line terminator, while
  the last \<open>$\<close> matches only at the end of the input.
\<close>

definition tag_char :: "char \<Rightarrow> bool" where
  "tag_char c =
     (c \<in> set ''abcdefghijklmnopqrstuvwxyzABCDEFGHIJKLMNOPQRSTUVWXYZ0123456789_-'')"

definition line_terminator :: "char \<Rightarrow> bool" where
  "line_terminator c = (c = CHR 0x0A \<or> c = CHR 0x0D)"

definition StatusMessageRegex_exec :: "string \<Rightarrow> (string \<times> string) option" where
  "StatusMessageRegex_exec reason =
     (case reason of
        [] \<Rightarrow> None
      | c # r \<Rightarrow>
          if c \<noteq> CHR ''<'' then None
          else (let tag = takeWhile tag_char r in
                if tag = [] then None
                else (case dropWhile tag_char r of
                        [] \<Rightarrow> None
                      | d # r' \<Rightarrow>
                          if d \<noteq> CHR ''>'' then None
                          else (let msg = dropWhile (\<lambda>x. x = CHR '' '') r' in
                                if msg = [] \<or> list_all (\<lambda>x. \<not> line_terminator x) (tl msg)
                                then Some (tag, msg) else None))))"

text \<open>The decimal digits of a close code, as \<open>"code=" + event.code\<close> prints it.\<close>

fun decimal :: "nat \<Rightarrow> string" where
  "decimal n =
     (if n < 10 then [char_of (48 + n)] else decimal (n div 10) @ [char_of (48 + n mod 10)])"

declare decimal.simps [simp del]

text \<open>\<open>_onWebSocketClose(event)\<close>; \<open>code\<close> and \<open>reason\<close> are the fields of the close event.\<close>

definition onWebSocketClose :: "nat \<Rightarrow> string \<Rightarrow> ctx \<Rightarrow> outcome \<times> ctx" where
  "onWebSocketClose code reason c =
     (if \<not> isWebSocketState (state (this c)) then (Returned, c)
      else if code = 1000 then
        (case StatusMessageRegex_exec reason of
           Some (status, message) \<Rightarrow>
             if status = ''eof'' then
               (if state (this c) = FinishingProcessing then (Returned, handleFinished c)
                else (Returned, handleError ''other_asr_error'' ''Unexpected EOF received.'' c))
             else (Returned, handleError status message c)
         | None \<Rightarrow> (Returned, handleError ''other_asr_error'' reason c))
      else (Returned,
            handleError ''websocket_closed''
              (''WebSocket closed: code='' @ decimal code @ '', reason='' @ reason) c))"

text \<open>
  \<open>_onWebSocketMessage(event)\<close>; \<open>data\<close> is \<open>event.data\<close>, and \<open>JSON_parse\<close> is the
  host's \<open>JSON.parse\<close>, which gives \<open>None\<close> where it throws a SyntaxError.
\<close>

definition onWebSocketMessage :: "(string \<Rightarrow> json option) \<Rightarrow> string \<Rightarrow> ctx \<Rightarrow> outcome \<times> ctx" where
  "onWebSocketMessage JSON_parse data c =
     (if state (this c) \<noteq> Running \<and> state (this c) \<noteq> FinishingRecording
          \<and> state (this c) \<noteq> FinishingProcessing
      then (Returned, c)
      else (case JSON_parse data of
              None \<Rightarrow> (Threw SyntaxError, c)
            | Some response \<Rightarrow>
               (case resultFromResponse response of
                  Inl e \<Rightarrow> (Threw e, c)
                | Inr res \<Rightarrow>
                   (let c1 = c\<lparr>this := (this c)\<lparr>result := updateResult (result (this c)) res\<rparr>\<rparr>
                    in (Returned,
                        if onPartialResult (this c1) then emit (CallOnPartialResult res) c1
                        else c1)))))"

text \<open>
  The page: every session object, the module variable, and the effects so far. A method
  called on the session at index \<open>i\<close> runs with that object as \<open>this\<close>.
\<close>

record page =
  sessions :: "RecordTranscribe list"
  active :: bool
  effects :: "effect list"

definition invoke :: "(ctx \<Rightarrow> outcome \<times> ctx) \<Rightarrow> nat \<Rightarrow> page \<Rightarrow> outcome \<times> page" where
  "invoke method i pg =
     (case method \<lparr>this = sessions pg ! i, recordTranscribeActive = active pg, trace = effects pg\<rparr> of
        (r, c) \<Rightarrow>
          (r, \<lparr>sessions = (sessions pg)[i := this c], active = recordTranscribeActive c,
               effects = trace c\<rparr>))"

text \<open>Frames delivered one after the other to \<open>_onMediaRecorderData\<close>, up to the first throw.\<close>

fun deliver :: "byte list list \<Rightarrow> ctx \<Rightarrow> outcome \<times> ctx" where
  "deliver [] c = (Returned, c)"
| "deliver (data # rest) c =
     (case onMediaRecorderData data c of
        (Returned, c') \<Rightarrow> deliver rest c'
      | (Threw e, c') \<Rightarrow> (Threw e, c'))"

text \<open>Results merged one after the other into the Result of the session.\<close>

fun merge_all :: "Result \<Rightarrow> Result list \<Rightarrow> Result" where
  "merge_all r [] = r"
| "merge_all r (n # ns) = merge_all (updateResult r n) ns"

section \<open>Definitions after the specification\<close>

text \<open>
  Definitions that follow the specification's words, for comparison with the code:
  the clamp, the rounded conversion the specification names, the reading of two bytes as a
  little-endian signed 16-bit integer, and the chunk cut before its first nonzero sample.
\<close>

definition spec_clamp :: "int \<Rightarrow> int \<Rightarrow> int \<Rightarrow> int" where
  "spec_clamp v lo hi = (if v < lo then lo else if hi < v then hi else v)"

definition spec_round_sample :: "rat \<Rightarrow> int" where
  "spec_round_sample x = spec_clamp (round (x * 32768)) (- 32768) 32767"

definition spec_int16_le :: "byte list \<Rightarrow> int" where
  "spec_int16_le bs = sint (push_bit 8 (ucast (bs ! 1) :: 16 word) OR ucast (bs ! 0))"

definition spec_truncated_chunk :: "number list \<Rightarrow> byte list" where
  "spec_truncated_chunk buffer = fill (dropWhile (\<lambda>x. sample x = 0) buffer)"

definition spec_grouping :: "int \<Rightarrow> byte list list \<Rightarrow> byte list list list \<Rightarrow> bool" where
  "spec_grouping maxOutputSize bufs groups =
     (concat groups = bufs
      \<and> list_all (\<lambda>g. g \<noteq> [] \<and> (maxOutputSize < int (length (concat g)) \<longrightarrow> length g = 1)) groups)"

text \<open>
  The close reasons of the form \<open><tag>\<close>, spaces, message, with a tag of letters, digits,
  \<open>_\<close> and \<open>-\<close> and any message; and those among them whose message is empty or starts
  with a character other than a space and has no line terminator after its first character.
\<close>

definition spec_claimed_grammar :: "string \<Rightarrow> string \<Rightarrow> string \<Rightarrow> bool" where
  "spec_claimed_grammar reason tag message =
     (tag \<noteq> [] \<and> list_all tag_char tag
      \<and> list_ex (\<lambda>n. reason = CHR ''<'' # tag @ CHR ''>'' # replicate n (CHR '' '') @ message)
            [0..<Suc (length reason)])"

definition spec_close_reason_grammar :: "string \<Rightarrow> string \<Rightarrow> string \<Rightarrow> bool" where
  "spec_close_reason_grammar reason tag message =
     (spec_claimed_grammar reason tag message
      \<and> (message = []
          \<or> hd message \<noteq> CHR '' '' \<and> list_all (\<lambda>x. \<not> line_terminator x) (tl message)))"

section \<open>Properties of the encoder\<close>

lemma length_setInt16: "length (setInt16 v) = 2"
  by (simp add: setInt16_def Let_def)

lemma length_fill: "length (fill xs) = 2 * length xs"
  by (induction xs) (simp_all add: length_setInt16)

lemma fill_concat: "fill xs = concat (map (\<lambda>x. setInt16 (sample x)) xs)"
  by (induction xs) simp_all

lemma sample_range: "- 32768 \<le> sample x \<and> sample x \<le> 32767"
  by (cases x) auto

lemma swapped_zero:
  fixes w :: "16 word"
  shows "(push_bit 8 (ucast (ucast w :: byte) :: 16 word) OR ucast (ucast (drop_bit 8 w) :: byte) = 0) = (w = 0)"
proof
  assume h: "push_bit 8 (ucast (ucast w :: byte) :: 16 word) OR ucast (ucast (drop_bit 8 w) :: byte) = 0"
  show "w = 0"
  proof (rule bit_eqI)
    fix n
    assume "possible_bit TYPE(16 word) n"
    then have n: "n < 16" by (simp add: possible_bit_def)
    have "\<not> bit (push_bit 8 (ucast (ucast w :: byte) :: 16 word) OR ucast (ucast (drop_bit 8 w) :: byte)) k" for k
      using h by simp
    then have a: "\<not> bit (push_bit 8 (ucast (ucast w :: byte) :: 16 word)) k"
      and b: "\<not> bit (ucast (ucast (drop_bit 8 w) :: byte) :: 16 word) k" for k
      by (simp_all add: bit_or_iff)
    show "bit w n = bit (0 :: 16 word) n"
    proof (cases "n < 8")
      case True
      with a [of "n + 8"] show ?thesis
        by (simp add: bit_simps)
    next
      case False
      with n b [of "n - 8"] show ?thesis
        by (simp add: bit_simps)
    qed
  qed
next
  assume "w = 0"
  then show "push_bit 8 (ucast (ucast w :: byte) :: 16 word) OR ucast (ucast (drop_bit 8 w) :: byte) = 0"
    by simp
qed

lemma sint16: "- 32768 \<le> v \<Longrightarrow> v \<le> 32767 \<Longrightarrow> sint (word_of_int v :: 16 word) = v"
  by (simp add: sint_sbintrunc' signed_take_bit_int_eq_self)

lemma word16_zero: "- 32768 \<le> v \<Longrightarrow> v \<le> 32767 \<Longrightarrow> ((word_of_int v :: 16 word) = 0) = (v = 0)"
  using sint16 [of v] by auto

lemma fill_nth:
  "i < length xs \<Longrightarrow> fill xs ! (i * 2) = hd (setInt16 (sample (xs ! i)))
     \<and> fill xs ! (i * 2 + 1) = hd (tl (setInt16 (sample (xs ! i))))"
proof (induction xs arbitrary: i)
  case Nil
  then show ?case by simp
next
  case (Cons x xs)
  show ?case
  proof (cases i)
    case 0
    then show ?thesis by (simp add: setInt16_def Let_def)
  next
    case (Suc j)
    with Cons.prems have "j < length xs" by simp
    from Cons.IH [OF this] Suc show ?thesis
      by (simp add: setInt16_def Let_def)
  qed
qed

lemma getInt16_fill:
  assumes "i < length xs"
  shows "(getInt16 (fill xs) (i * 2) = 0) = (sample (xs ! i) = 0)"
proof -
  let ?w = "word_of_int (sample (xs ! i)) :: 16 word"
  have "getInt16 (fill xs) (i * 2)
      = sint (push_bit 8 (ucast (ucast ?w :: byte) :: 16 word) OR ucast (ucast (drop_bit 8 ?w) :: byte))"
    using fill_nth [OF assms] by (simp add: getInt16_def setInt16_def Let_def)
  then have "(getInt16 (fill xs) (i * 2) = 0) = (?w = 0)"
    by (simp add: signed_eq_0_iff swapped_zero)
  then show ?thesis
    using sample_range [of "xs ! i"] by (simp add: word16_zero)
qed

lemma scan_fill:
  "i \<le> length xs \<Longrightarrow>
     scan (fill xs) (length xs) i = i + length (takeWhile (\<lambda>x. sample x = 0) (drop i xs))"
proof (induction "length xs - i" arbitrary: i)
  case 0
  then show ?case by (subst scan.simps) simp
next
  case (Suc d)
  then have lt: "i < length xs" by simp
  then have dr: "drop i xs = xs ! i # drop (Suc i) xs"
    by (simp add: Cons_nth_drop_Suc)
  show ?case
  proof (cases "sample (xs ! i) = 0")
    case True
    have "scan (fill xs) (length xs) i = scan (fill xs) (length xs) (i + 1)"
      using lt True getInt16_fill [OF lt] by (subst scan.simps) simp
    also have "\<dots> = (i + 1) + length (takeWhile (\<lambda>x. sample x = 0) (drop (i + 1) xs))"
      using Suc.hyps(1) [of "i + 1"] Suc.hyps(2) lt by simp
    finally show ?thesis using True dr by simp
  next
    case False
    then have "scan (fill xs) (length xs) i = i"
      using getInt16_fill [OF lt] by (subst scan.simps) simp
    then show ?thesis using False dr by simp
  qed
qed

lemma scan_all_zero:
  "(scan (fill xs) (length xs) 0 = length xs) = (\<forall>x\<in>set xs. sample x = 0)"
proof -
  have "(length (takeWhile (\<lambda>x. sample x = 0) xs) = length xs) = (\<forall>x\<in>set xs. sample x = 0)"
    by (induction xs) auto
  then show ?thesis by (simp add: scan_fill)
qed

lemma le_roundtrip:
  fixes w :: "16 word"
  shows "push_bit 8 (ucast (ucast (drop_bit 8 w) :: byte) :: 16 word) OR ucast (ucast w :: byte) = w"
  by (rule bit_eqI) (auto simp: bit_simps)

lemma int16_le_setInt16:
  "- 32768 \<le> v \<Longrightarrow> v \<le> 32767 \<Longrightarrow> spec_int16_le (setInt16 v) = v"
  by (simp add: spec_int16_le_def setInt16_def Let_def le_roundtrip sint16)

lemma encode_buffers:
  "buffers (encode buffer rls st) =
     (if rls \<and> initialZeros st \<and> (\<forall>x\<in>set buffer. sample x = 0) then buffers st
      else buffers st @ [fill buffer])"
  by (simp add: encode_def Let_def scan_all_zero)

lemma encode_initialZeros:
  "initialZeros (encode buffer rls st) =
     (initialZeros st \<and> (rls \<longrightarrow> (\<forall>x\<in>set buffer. sample x = 0)))"
  by (auto simp add: encode_def Let_def scan_all_zero)


lemma group_scan_spec:
  "p + n \<le> length bufs \<Longrightarrow> group_scan m bufs p n len = (n', len') \<Longrightarrow>
     n \<le> n' \<and> p + n' \<le> length bufs
     \<and> len' = len + length (concat (take (n' - n) (drop (p + n) bufs)))
     \<and> (n < n' \<and> 1 < n' \<longrightarrow> int len' \<le> m)"
proof (induction m bufs p n len rule: group_scan.induct)
  case (1 m bufs p n len)
  let ?b = "bufs ! (p + n)"
  show ?case
  proof (cases "p + n < length bufs")
    case False
    with "1.prems" show ?thesis
      by (subst (asm) group_scan.simps) simp
  next
    case inb: True
    show ?thesis
    proof (cases "n > 0 \<and> int (len + length ?b) > m")
      case True
      with inb "1.prems" show ?thesis
        by (subst (asm) group_scan.simps) (simp add: Let_def)
    next
      case False
      with inb "1.prems"(2) have eq: "group_scan m bufs p (n + 1) (len + length ?b) = (n', len')"
        by (subst (asm) group_scan.simps) (auto simp: Let_def)
      from inb have le: "p + (n + 1) \<le> length bufs" by simp
      note ih0 = "1.IH" [OF inb refl False le eq]
      have ih: "n + 1 \<le> n'" "p + n' \<le> length bufs"
        "len' = len + length ?b + length (concat (take (n' - (n + 1)) (drop (p + (n + 1)) bufs)))"
        "n + 1 < n' \<and> 1 < n' \<longrightarrow> int len' \<le> m"
        using ih0 by blast+
      have dr: "drop (p + n) bufs = ?b # drop (p + (n + 1)) bufs"
        using inb by (simp add: Cons_nth_drop_Suc)
      have tk: "take (n' - n) (drop (p + n) bufs) = ?b # take (n' - (n + 1)) (drop (p + (n + 1)) bufs)"
      proof -
        from ih(1) have "n' - n = Suc (n' - (n + 1))" by simp
        with dr show ?thesis by simp
      qed
      have bound: "n < n' \<and> 1 < n' \<longrightarrow> int len' \<le> m"
      proof (cases "n + 1 < n'")
        case True
        with ih(4) show ?thesis by simp
      next
        case False
        with ih(1) have "n' = n + 1" by simp
        with ih(3) have "len' = len + length ?b" by simp
        with False \<open>\<not> (n > 0 \<and> int (len + length ?b) > m)\<close> \<open>n' = n + 1\<close> show ?thesis by auto
      qed
      from ih tk bound show ?thesis by simp
    qed
  qed
qed

lemma group_scan_all:
  "p + n \<le> length bufs \<Longrightarrow> int (len + length (concat (drop (p + n) bufs))) \<le> m \<Longrightarrow>
     group_scan m bufs p n len = (length bufs - p, len + length (concat (drop (p + n) bufs)))"
proof (induction m bufs p n len rule: group_scan.induct)
  case (1 m bufs p n len)
  let ?b = "bufs ! (p + n)"
  show ?case
  proof (cases "p + n < length bufs")
    case False
    with "1.prems" show ?thesis
      by (subst group_scan.simps) auto
  next
    case inb: True
    have dr: "drop (p + n) bufs = ?b # drop (p + (n + 1)) bufs"
      using inb by (simp add: Cons_nth_drop_Suc)
    with "1.prems"(2) have fit: "\<not> (n > 0 \<and> int (len + length ?b) > m)"
      and rest: "int (len + length ?b + length (concat (drop (p + (n + 1)) bufs))) \<le> m"
      by simp_all
    from inb have le: "p + (n + 1) \<le> length bufs" by simp
    have "group_scan m bufs p n len = group_scan m bufs p (n + 1) (len + length ?b)"
      using inb fit by (subst group_scan.simps) (auto simp: Let_def)
    also have "\<dots> = (length bufs - p, len + length ?b + length (concat (drop (p + (n + 1)) bufs)))"
      using "1.IH" [OF inb refl fit le rest] .
    finally show ?thesis using dr by simp
  qed
qed

lemma copy_loop_spec:
  "p + n \<le> length bufs \<Longrightarrow> i \<le> n \<Longrightarrow>
   offset + length (concat (drop i (take n (drop p bufs)))) \<le> length array \<Longrightarrow>
     copy_loop bufs p n i offset array =
       take offset array @ concat (drop i (take n (drop p bufs)))
         @ drop (offset + length (concat (drop i (take n (drop p bufs))))) array"
proof (induction bufs p n i offset array rule: copy_loop.induct)
  case (1 bufs p n i offset array)
  let ?b = "bufs ! (p + i)"
  let ?seg = "take n (drop p bufs)"
  show ?case
  proof (cases "i < n")
    case False
    with "1.prems" show ?thesis
      by (subst copy_loop.simps) simp
  next
    case True
    have len: "length ?seg = n" using "1.prems"(1) by simp
    have nth: "?seg ! i = ?b" using True "1.prems"(1) by simp
    have dr: "drop i ?seg = ?b # drop (i + 1) ?seg"
      using True len nth by (metis Cons_nth_drop_Suc Suc_eq_plus1)
    let ?rest = "concat (drop (i + 1) ?seg)"
    let ?array' = "array_set array ?b offset"
    have fits: "offset + length ?b + length ?rest \<le> length array"
      using "1.prems"(3) dr by simp
    have la: "length ?array' = length array"
      using fits by (simp add: array_set_def)
    have step: "copy_loop bufs p n i offset array =
        copy_loop bufs p n (i + 1) (offset + length ?b) ?array'"
      using True by (subst copy_loop.simps) (simp add: Let_def)
    have ih: "copy_loop bufs p n (i + 1) (offset + length ?b) ?array' =
        take (offset + length ?b) ?array' @ ?rest
          @ drop (offset + length ?b + length ?rest) ?array'"
      using "1.IH" [OF True refl "1.prems"(1)] True fits la by simp
    have t: "take (offset + length ?b) ?array' = take offset array @ ?b"
      using fits by (simp add: array_set_def)
    have d: "drop (offset + length ?b + length ?rest) ?array'
        = drop (offset + length ?b + length ?rest) array"
      using fits by (simp add: array_set_def ac_simps)
    show ?thesis
      using step ih t d dr by (simp add: add.assoc)
  qed
qed

lemma copy_loop_concat:
  assumes "p + n \<le> length bufs" and "len = length (concat (take n (drop p bufs)))"
  shows "copy_loop bufs p n 0 0 (replicate len 0) = concat (take n (drop p bufs))"
  using copy_loop_spec [of p n bufs 0 0 "replicate len 0"] assms by simp

lemma concat_map_concat_eq: "concat (map concat groups) = concat (concat groups)"
  by (induction groups) simp_all

lemma spec_grouping_Nil: "spec_grouping m [] groups \<Longrightarrow> groups = []"
  by (cases groups) (simp_all add: spec_grouping_def)

lemma dump_loop_groups:
  "p \<le> length bufs \<Longrightarrow>
     \<exists>groups. dump_loop m bufs p out = out @ map concat groups \<and> spec_grouping m (drop p bufs) groups"
proof (induction m bufs p out rule: dump_loop.induct)
  case (1 m bufs p out)
  show ?case
  proof (cases "p < length bufs")
    case False
    then have "dump_loop m bufs p out = out @ map concat []"
      by (subst dump_loop.simps) simp
    moreover from False have "spec_grouping m (drop p bufs) []"
      by (simp add: spec_grouping_def)
    ultimately show ?thesis by blast
  next
    case True
    obtain n len where gs: "group_scan m bufs p 0 0 = (n, len)"
      by (cases "group_scan m bufs p 0 0")
    let ?g = "take n (drop p bufs)"
    from group_scan_spec [of p 0 bufs m 0 n len] gs "1.prems"
    have le: "p + n \<le> length bufs" and len: "len = length (concat ?g)"
      and small: "1 < n \<longrightarrow> int len \<le> m"
      by auto
    from group_scan_first [OF True, of m] gs have pos: "0 < n" by simp
    let ?array = "copy_loop bufs p n 0 0 (replicate len 0)"
    have arr: "?array = concat ?g"
      using le len by (rule copy_loop_concat)
    have step: "dump_loop m bufs p out = dump_loop m bufs (p + n) (out @ [?array])"
      using True gs by (subst dump_loop.simps) (simp add: Let_def)
    from "1.IH" [OF True gs [symmetric] refl] le
    obtain groups where g1: "dump_loop m bufs (p + n) (out @ [?array]) = (out @ [?array]) @ map concat groups"
      and g2: "spec_grouping m (drop (p + n) bufs) groups"
      by auto
    have lg: "length ?g = n" using le by simp
    have "dump_loop m bufs p out = out @ map concat (?g # groups)"
      using step g1 arr by simp
    moreover have "spec_grouping m (drop p bufs) (?g # groups)"
    proof -
      have "?g @ drop (p + n) bufs = drop p bufs"
        by (metis append_take_drop_id drop_drop add.commute)
      moreover have "?g \<noteq> []" using lg pos by auto
      moreover have "m < int (length (concat ?g)) \<longrightarrow> length ?g = 1"
        using small len lg pos by auto
      ultimately show ?thesis
        using g2 by (simp add: spec_grouping_def)
    qed
    ultimately show ?thesis by blast
  qed
qed

lemma dump_loop_single:
  assumes "bufs \<noteq> []" and "int (length (concat bufs)) \<le> m"
  shows "dump_loop m bufs 0 [] = [concat bufs]"
proof -
  have gs: "group_scan m bufs 0 0 0 = (length bufs, length (concat bufs))"
    using group_scan_all [of 0 0 bufs 0 m] assms(2) by simp
  have arr: "copy_loop bufs 0 (length bufs) 0 0 (replicate (length (concat bufs)) 0) = concat bufs"
    using copy_loop_concat [of 0 "length bufs" bufs "length (concat bufs)"] by simp
  have "dump_loop m bufs 0 [] = dump_loop m bufs (length bufs) [concat bufs]"
    using assms(1) gs arr by (subst dump_loop.simps) (simp add: Let_def)
  also have "\<dots> = [concat bufs]"
    by (subst dump_loop.simps) simp
  finally show ?thesis .
qed

lemma dump_loop_empty_iff: "(dump_loop m bufs 0 [] = []) = (bufs = [])"
proof
  assume e: "dump_loop m bufs 0 [] = []"
  from dump_loop_groups [of 0 bufs m "[]"]
  obtain groups where "dump_loop m bufs 0 [] = map concat groups" "spec_grouping m bufs groups"
    by auto
  with e show "bufs = []" by (simp add: spec_grouping_def)
next
  assume "bufs = []"
  then show "dump_loop m bufs 0 [] = []"
    by (subst dump_loop.simps) simp
qed

lemma dump_loop_concat: "concat (dump_loop m bufs 0 []) = concat bufs"
proof -
  from dump_loop_groups [of 0 bufs m "[]"]
  obtain groups where "dump_loop m bufs 0 [] = map concat groups" "concat groups = bufs"
    by (auto simp: spec_grouping_def)
  then show ?thesis by (simp add: concat_map_concat_eq)
qed


subsection \<open>Claims about the encoder\<close>

text \<open>
  C2 (the code departs from the claim). With \<open>removeInitialZeros\<close> set and the stream in
  its all-zero prefix, a block whose samples all encode to zero is discarded and the flag
  stays true (\<open>encode_buffers\<close>, \<open>encode_initialZeros\<close>); for any other block the flag
  clears. The claim says the buffered chunk then starts at the first nonzero sample. The
  code slices the input parameter instead of the encoded array and pushes the whole
  encoding: for the block \<open>[0, 0.5]\<close> it buffers the four bytes \<open>00 00 00 40\<close>, where the
  chunk cut at the first nonzero sample is \<open>00 40\<close>.
\<close>

theorem encode_keeps_leading_zero_bytes:
  "buffers (encode [Finite 0, Finite (1 / 2)] True \<lparr>buffers = [], initialZeros = True\<rparr>) = [[0, 0, 0, 64]]
   \<and> initialZeros (encode [Finite 0, Finite (1 / 2)] True \<lparr>buffers = [], initialZeros = True\<rparr>) = False
   \<and> spec_truncated_chunk [Finite 0, Finite (1 / 2)] = [0, 64]"
  by code_simp

text \<open>
  C3 (amended). \<open>encode\<close> converts every finite sample \<open>x\<close> to
  \<open>clamp(floor(x * 32768), -32768, 32767)\<close> (floor, not rounding to nearest), so 1.0 gives
  32767 and -1.0 gives -32768; each sample is stored as the two bytes of that signed 16-bit
  integer, low byte first; and when \<open>removeInitialZeros\<close> is unset or the stream is past
  its all-zero prefix, the bytes of all samples, in order, are appended as one chunk to the
  chunk list. What is buffered for a block within the all-zero prefix under
  \<open>removeInitialZeros\<close> is the matter of C2 and is not stated here.
\<close>

theorem encode_floor_pcm:
  "sample (Finite x) = spec_clamp \<lfloor>x * 32768\<rfloor> (- 32768) 32767
   \<and> sample (Finite 1) = 32767 \<and> sample (Finite (- 1)) = - 32768
   \<and> length (setInt16 (sample s)) = 2 \<and> spec_int16_le (setInt16 (sample s)) = sample s
   \<and> fill buffer = concat (map (\<lambda>x. setInt16 (sample x)) buffer)
   \<and> (\<not> (rls \<and> initialZeros st) \<longrightarrow>
        buffers (encode buffer rls st)
          = buffers st @ [concat (map (\<lambda>x. setInt16 (sample x)) buffer)])"
  using sample_range [of s]
  by (simp add: spec_clamp_def length_setInt16 int16_le_setInt16 encode_buffers fill_concat)

theorem encode_floor_pcm_witness:
  "buffers (encode [Finite 1, Finite (- 1), Finite (1 / 2)] False \<lparr>buffers = [[7]], initialZeros = True\<rparr>)
     = [[7], [255, 127, 0, 128, 0, 64]]
   \<and> buffers (encode [Finite 0, Finite (1 / 2)] True \<lparr>buffers = [[7]], initialZeros = False\<rparr>)
     = [[7], [0, 0, 0, 64]]"
  using encode_floor_pcm [of 0 NaN "[Finite 1, Finite (- 1), Finite (1 / 2)]" False
      "\<lparr>buffers = [[7]], initialZeros = True\<rparr>"]
    encode_floor_pcm [of 0 NaN "[Finite 0, Finite (1 / 2)]" True
      "\<lparr>buffers = [[7]], initialZeros = False\<rparr>"]
  by (simp add: setInt16_def)

text \<open>
  The claim as stated fails at the sample \<open>3/131072\<close>: \<open>x * 32768 = 0.75\<close> rounds to 1,
  and the code stores 0.
\<close>

theorem encode_round_counterexample:
  "buffers (encode [Finite (3 / 131072)] False \<lparr>buffers = [], initialZeros = True\<rparr>) = [[0, 0]]
   \<and> setInt16 (spec_round_sample (3 / 131072)) = [1, 0]"
  by code_simp

text \<open>
  C4 (amended). \<open>dump\<close> clears the buffer and keeps the all-zero flag; the concatenation of
  the frames it returns is the concatenation of the buffered chunks; unless the buffer is
  empty and the heartbeat frame of C9 is emitted, the frames are the concatenations of
  consecutive nonempty groups of chunks, in order, and a frame longer than
  \<open>maxOutputSize\<close> is a single chunk; with a nonempty buffer and \<open>maxOutputSize\<close> at least
  the total buffered length, the result is the single frame of all chunks.
\<close>

theorem dump_partition:
  "(case dump m rls st of (frames, st') \<Rightarrow>
      buffers st' = [] \<and> initialZeros st' = initialZeros st
      \<and> concat frames = concat (buffers st)
      \<and> (buffers st \<noteq> [] \<or> \<not> (rls \<and> initialZeros st) \<longrightarrow>
           (\<exists>groups. spec_grouping m (buffers st) groups \<and> frames = map concat groups))
      \<and> (buffers st \<noteq> [] \<and> int (length (concat (buffers st))) \<le> m \<longrightarrow>
           frames = [concat (buffers st)]))"
proof -
  from dump_loop_groups [of 0 "buffers st" m "[]"]
  obtain groups where g: "dump_loop m (buffers st) 0 [] = map concat groups"
    "spec_grouping m (buffers st) groups"
    by auto
  show ?thesis
  proof (cases "buffers st = []")
    case True
    with g(2) have "groups = []"
      by (simp add: spec_grouping_Nil)
    with True g show ?thesis
      by (auto simp: dump_def Let_def)
  next
    case False
    then have ne: "dump_loop m (buffers st) 0 [] \<noteq> []"
      by (simp add: dump_loop_empty_iff)
    then have "fst (dump m rls st) = dump_loop m (buffers st) 0 []"
      by (simp add: dump_def Let_def)
    then show ?thesis
      using g False dump_loop_concat [of m "buffers st"] dump_loop_single [of "buffers st" m]
      by (auto simp: dump_def Let_def)
  qed
qed

theorem dump_partition_witness:
  "fst (dump 4 False \<lparr>buffers = [[1, 2, 3], [4], [5, 6, 7, 8, 9], [], [1], [2, 3]], initialZeros = True\<rparr>)
     = [[1, 2, 3, 4], [5, 6, 7, 8, 9], [1, 2, 3]]
   \<and> (\<exists>groups. spec_grouping 4 [[1, 2, 3], [4], [5, 6, 7, 8, 9], [], [1], [2, 3]] groups
         \<and> map concat groups = [[1, 2, 3, 4], [5, 6, 7, 8, 9], [1, 2, 3]])
   \<and> fst (dump 13 False \<lparr>buffers = [[1, 2, 3], [4], [5, 6, 7, 8, 9], [], [1], [2, 3]], initialZeros = True\<rparr>)
     = [[1, 2, 3, 4, 5, 6, 7, 8, 9, 1, 2, 3]]"
proof -
  let ?st = "\<lparr>buffers = [[1, 2, 3], [4], [5, 6, 7, 8, 9], [], [1], [2, 3 :: byte]], initialZeros = True\<rparr>"
  have v: "fst (dump 4 False ?st) = [[1, 2, 3, 4], [5, 6, 7, 8, 9], [1, 2, 3]]"
    by code_simp
  show ?thesis
    using dump_partition [where m = 4 and rls = False and st = ?st]
      dump_partition [where m = 13 and rls = False and st = ?st] v
    by (auto simp: split_def)
qed

text \<open>
  The claim as stated fails for the empty buffer: \<open>maxOutputSize = 0\<close> is at least the
  total buffered length, and \<open>dump\<close> returns no frame.
\<close>

theorem dump_single_frame_counterexample:
  "int (length (concat (buffers \<lparr>buffers = [], initialZeros = True\<rparr>))) \<le> 0
   \<and> length (fst (dump 0 False \<lparr>buffers = [], initialZeros = True\<rparr>)) \<noteq> 1"
  by code_simp

text \<open>
  C9. When the grouping loop of \<open>dump\<close> produces no frame (which happens exactly when the
  buffer is empty), \<open>removeInitialZeros\<close> is set and the all-zero flag is still true,
  \<open>dump\<close> returns exactly one frame, and it is empty; in every other case where the buffer
  is empty, \<open>dump\<close> returns no frame.
\<close>

theorem dump_heartbeat:
  "(dump_loop m (buffers st) 0 [] = [] \<and> rls \<and> initialZeros st \<longrightarrow> fst (dump m rls st) = [[]])
   \<and> (buffers st = [] \<and> \<not> (rls \<and> initialZeros st) \<longrightarrow> fst (dump m rls st) = [])
   \<and> (dump_loop m (buffers st) 0 [] = []) = (buffers st = [])"
  by (auto simp: dump_def Let_def dump_loop_empty_iff)

theorem dump_heartbeat_witness:
  "fst (dump 60000 True \<lparr>buffers = [], initialZeros = True\<rparr>) = [[]]
   \<and> fst (dump 60000 False \<lparr>buffers = [], initialZeros = True\<rparr>) = []
   \<and> fst (dump 60000 True \<lparr>buffers = [], initialZeros = False\<rparr>) = []"
  using dump_heartbeat [where m = 60000 and st = "\<lparr>buffers = [], initialZeros = True\<rparr>" and rls = True]
    dump_heartbeat [where m = 60000 and st = "\<lparr>buffers = [], initialZeros = True\<rparr>" and rls = False]
    dump_heartbeat [where m = 60000 and st = "\<lparr>buffers = [], initialZeros = False\<rparr>" and rls = True]
  by simp

section \<open>Properties of the Result accumulator\<close>

lemma pop_loop_eq: "pop_loop ws = rev (dropWhile (\<lambda>w. \<not> is_final w) (rev ws))"
proof (induction ws rule: pop_loop.induct)
  case (1 ws)
  show ?case
  proof (cases "length ws > 0 \<and> \<not> is_final (ws ! (length ws - 1))")
    case True
    then obtain ys y where ws: "ws = ys @ [y]"
      by (cases ws rule: rev_cases) auto
    with True have nf: "\<not> is_final y" by simp
    have "pop_loop ws = pop_loop (butlast ws)"
      using True by (subst pop_loop.simps) simp
    also have "\<dots> = rev (dropWhile (\<lambda>w. \<not> is_final w) (rev (butlast ws)))"
      using "1.IH" True by simp
    also have "\<dots> = rev (dropWhile (\<lambda>w. \<not> is_final w) (rev ws))"
      using ws nf by simp
    finally show ?thesis .
  next
    case False
    then have "pop_loop ws = ws"
      by (subst pop_loop.simps) auto
    moreover have "dropWhile (\<lambda>w. \<not> is_final w) (rev ws) = rev ws"
    proof (cases ws rule: rev_cases)
      case Nil
      then show ?thesis by simp
    next
      case (snoc ys y)
      with False show ?thesis by simp
    qed
    ultimately show ?thesis by simp
  qed
qed

lemma filter_dropWhile_rev:
  fixes ws :: "Word list"
  shows "filter is_final (rev (dropWhile (\<lambda>w. \<not> is_final w) (rev ws))) = filter is_final ws"
proof -
  have "filter is_final (dropWhile (\<lambda>w. \<not> is_final w) xs) = filter is_final xs" for xs :: "Word list"
    by (induction xs) simp_all
  from this [of "rev ws"] show ?thesis
    by (simp add: rev_filter [symmetric] del: rev_filter)
qed

lemma wordFromJson_final: "wordFromJson j f = Inr w \<Longrightarrow> is_final w = f"
  by (auto simp: wordFromJson_def and_then_def split: sum.splits)

lemma push_words_spec:
  "push_words js f acc = Inr ws \<Longrightarrow>
     \<exists>new. ws = acc @ new \<and> list_all2 (\<lambda>j w. wordFromJson j f = Inr w) js new"
proof (induction js arbitrary: acc)
  case Nil
  then show ?case by simp
next
  case (Cons j js)
  then obtain w where w: "wordFromJson j f = Inr w" and r: "push_words js f (acc @ [w]) = Inr ws"
    by (auto split: sum.splits)
  from Cons.IH [OF r] obtain new where "ws = (acc @ [w]) @ new"
    "list_all2 (\<lambda>j w. wordFromJson j f = Inr w) js new"
    by blast
  with w have "ws = acc @ (w # new) \<and> list_all2 (\<lambda>j w. wordFromJson j f = Inr w) (j # js) (w # new)"
    by simp
  then show ?case by blast
qed

lemma list_all2_final:
  "list_all2 (\<lambda>j w. wordFromJson j f = Inr w) js ws \<Longrightarrow> list_all (\<lambda>w. is_final w = f) ws"
  by (induction js ws rule: list_all2_induct) (auto dest: wordFromJson_final)

lemma forEach_elements_Inr: "forEach_elements v = Inr xs \<Longrightarrow> v = JArr xs"
  by (cases v) simp_all

lemma resultFromResponse_Inr:
  assumes "resultFromResponse response = Inr incoming"
  shows "\<exists>fws nfws finals nonfinals.
           getprop response ''fw'' = Inr (JArr fws) \<and> getprop response ''nfw'' = Inr (JArr nfws)
           \<and> words incoming = finals @ nonfinals
           \<and> list_all2 (\<lambda>j w. wordFromJson j True = Inr w) fws finals
           \<and> list_all2 (\<lambda>j w. wordFromJson j False = Inr w) nfws nonfinals"
    and "getprop response ''fpt'' = Inr (final_proc_time_ms incoming)"
    and "getprop response ''tpt'' = Inr (total_proc_time_ms incoming)"
proof -
  from assms obtain fw fws words1 nfw nfws words2 has sp fpt tpt where
    a: "getprop response ''fw'' = Inr fw" "forEach_elements fw = Inr fws"
       "push_words fws True [] = Inr words1"
       "getprop response ''nfw'' = Inr nfw" "forEach_elements nfw = Inr nfws"
       "push_words nfws False words1 = Inr words2"
       "getprop response ''fpt'' = Inr fpt" "getprop response ''tpt'' = Inr tpt"
       "incoming = \<lparr>words = words2, final_proc_time_ms = fpt, total_proc_time_ms = tpt, speakers = sp\<rparr>"
    unfolding resultFromResponse_def and_then_def
    by (auto split: sum.splits)
  from a(2) a(5) have arr: "fw = JArr fws" "nfw = JArr nfws"
    by (simp_all add: forEach_elements_Inr)
  from push_words_spec [OF a(3)] obtain finals where f: "words1 = finals"
    "list_all2 (\<lambda>j w. wordFromJson j True = Inr w) fws finals" by auto
  from push_words_spec [OF a(6)] obtain nonfinals where n: "words2 = words1 @ nonfinals"
    "list_all2 (\<lambda>j w. wordFromJson j False = Inr w) nfws nonfinals" by auto
  from a arr f n show "\<exists>fws nfws finals nonfinals.
           getprop response ''fw'' = Inr (JArr fws) \<and> getprop response ''nfw'' = Inr (JArr nfws)
           \<and> words incoming = finals @ nonfinals
           \<and> list_all2 (\<lambda>j w. wordFromJson j True = Inr w) fws finals
           \<and> list_all2 (\<lambda>j w. wordFromJson j False = Inr w) nfws nonfinals"
    by auto
  from a show "getprop response ''fpt'' = Inr (final_proc_time_ms incoming)"
    "getprop response ''tpt'' = Inr (total_proc_time_ms incoming)" by simp_all
qed

lemma updateResult_keeps_final:
  "is_final w \<Longrightarrow> w \<in> set (words r) \<Longrightarrow> w \<in> set (words (updateResult r n))"
proof -
  assume "is_final w" "w \<in> set (words r)"
  then have "w \<in> set (filter is_final (words r))" by simp
  then have "w \<in> set (filter is_final (pop_loop (words r)))"
    by (simp only: pop_loop_eq filter_dropWhile_rev)
  then show ?thesis by (simp add: updateResult_def)
qed

lemma merge_all_keeps_final:
  "is_final w \<Longrightarrow> w \<in> set (words r) \<Longrightarrow> w \<in> set (words (merge_all r ns))"
  by (induction ns arbitrary: r) (simp_all add: updateResult_keeps_final)
lemma resultFromResponse_needs_arrays:
  assumes "resultFromResponse response = Inr res"
  shows "(\<exists>fws. getprop response ''fw'' = Inr (JArr fws)) \<and> (\<exists>nfws. getprop response ''nfw'' = Inr (JArr nfws))"
proof -
  from assms obtain fw fws words1 nfw nfws where
    a: "getprop response ''fw'' = Inr fw" "forEach_elements fw = Inr fws"
       "getprop response ''nfw'' = Inr nfw" "forEach_elements nfw = Inr nfws"
    unfolding resultFromResponse_def and_then_def
    by (auto split: sum.splits)
  from a(2) have "fw = JArr fws" by (cases fw) simp_all
  moreover from a(4) have "nfw = JArr nfws" by (cases nfw) simp_all
  ultimately show ?thesis using a by simp
qed


subsection \<open>Claims about the Result accumulator\<close>

text \<open>
  C5. A response that \<open>resultFromResponse\<close> accepts has arrays \<open>fw\<close> and \<open>nfw\<close>, and the
  words of the incoming result are one final word per element of \<open>fw\<close>, in order, followed
  by one non-final word per element of \<open>nfw\<close>, in order. Merging it with
  \<open>_updateResult\<close> removes the trailing non-final words of the current Result (the longest
  suffix of non-final words) and no final word, appends the incoming words, and replaces
  both processing times and the speaker mapping by the incoming ones. Consequently a final
  word of the Result is in the Result after every later sequence of merges.
\<close>

theorem updateResult_merge:
  assumes "resultFromResponse response = Inr incoming"
  shows "(\<exists>fws nfws finals nonfinals.
            getprop response ''fw'' = Inr (JArr fws) \<and> getprop response ''nfw'' = Inr (JArr nfws)
            \<and> list_all2 (\<lambda>j w. wordFromJson j True = Inr w) fws finals
            \<and> list_all2 (\<lambda>j w. wordFromJson j False = Inr w) nfws nonfinals
            \<and> list_all is_final finals \<and> list_all (\<lambda>w. \<not> is_final w) nonfinals
            \<and> words incoming = finals @ nonfinals)
     \<and> words (updateResult current incoming)
         = rev (dropWhile (\<lambda>w. \<not> is_final w) (rev (words current))) @ words incoming
     \<and> filter is_final (rev (dropWhile (\<lambda>w. \<not> is_final w) (rev (words current))))
         = filter is_final (words current)
     \<and> final_proc_time_ms (updateResult current incoming) = final_proc_time_ms incoming
     \<and> total_proc_time_ms (updateResult current incoming) = total_proc_time_ms incoming
     \<and> speakers (updateResult current incoming) = speakers incoming
     \<and> getprop response ''fpt'' = Inr (final_proc_time_ms incoming)
     \<and> getprop response ''tpt'' = Inr (total_proc_time_ms incoming)
     \<and> (\<forall>w\<in>set (words (updateResult current incoming)).
           is_final w \<longrightarrow> w \<in> set (words (merge_all (updateResult current incoming) later)))"
proof -
  from resultFromResponse_Inr(1) [OF assms]
  obtain fws nfws finals nonfinals where r:
    "getprop response ''fw'' = Inr (JArr fws)" "getprop response ''nfw'' = Inr (JArr nfws)"
    "words incoming = finals @ nonfinals"
    "list_all2 (\<lambda>j w. wordFromJson j True = Inr w) fws finals"
    "list_all2 (\<lambda>j w. wordFromJson j False = Inr w) nfws nonfinals"
    by blast
  from list_all2_final [OF r(4)] list_all2_final [OF r(5)]
  have "list_all is_final finals" "list_all (\<lambda>w. \<not> is_final w) nonfinals"
    by simp_all
  with r have first: "\<exists>fws nfws finals nonfinals.
            getprop response ''fw'' = Inr (JArr fws) \<and> getprop response ''nfw'' = Inr (JArr nfws)
            \<and> list_all2 (\<lambda>j w. wordFromJson j True = Inr w) fws finals
            \<and> list_all2 (\<lambda>j w. wordFromJson j False = Inr w) nfws nonfinals
            \<and> list_all is_final finals \<and> list_all (\<lambda>w. \<not> is_final w) nonfinals
            \<and> words incoming = finals @ nonfinals"
    by blast
  have second: "words (updateResult current incoming)
         = rev (dropWhile (\<lambda>w. \<not> is_final w) (rev (words current))) @ words incoming"
    by (simp add: updateResult_def pop_loop_eq)
  have rest: "final_proc_time_ms (updateResult current incoming) = final_proc_time_ms incoming"
    "total_proc_time_ms (updateResult current incoming) = total_proc_time_ms incoming"
    "speakers (updateResult current incoming) = speakers incoming"
    by (simp_all add: updateResult_def)
  have last: "\<forall>w\<in>set (words (updateResult current incoming)).
           is_final w \<longrightarrow> w \<in> set (words (merge_all (updateResult current incoming) later))"
    using merge_all_keeps_final by blast
  show ?thesis
    using first second rest last filter_dropWhile_rev [of "words current"]
      resultFromResponse_Inr(2,3) [OF assms]
    by blast
qed


theorem updateResult_merge_witness:
  "resultFromResponse
     (JObj [(''fw'', JArr [JObj [(''t'', JStr ''b'')]]), (''nfw'', JArr [JObj [(''t'', JStr ''c'')]]),
            (''fpt'', JNum 10), (''tpt'', JNum 20)])
   = Inr \<lparr>words = [\<lparr>word_text = JStr ''b'', start_ms = JUndefined, duration_ms = JUndefined,
         speaker = JUndefined, is_final = True\<rparr>,
        \<lparr>word_text = JStr ''c'', start_ms = JUndefined, duration_ms = JUndefined,
         speaker = JUndefined, is_final = False\<rparr>],
      final_proc_time_ms = JNum 10, total_proc_time_ms = JNum 20, speakers = []\<rparr>
   \<and> words (updateResult
        \<lparr>words = [\<lparr>word_text = JStr ''a'', start_ms = JUndefined, duration_ms = JUndefined,
         speaker = JUndefined, is_final = True\<rparr>,
        \<lparr>word_text = JStr ''x'', start_ms = JUndefined, duration_ms = JUndefined,
         speaker = JUndefined, is_final = False\<rparr>],
      final_proc_time_ms = JNum 1, total_proc_time_ms = JNum 2, speakers = []\<rparr>
        \<lparr>words = [\<lparr>word_text = JStr ''b'', start_ms = JUndefined, duration_ms = JUndefined,
         speaker = JUndefined, is_final = True\<rparr>,
        \<lparr>word_text = JStr ''c'', start_ms = JUndefined, duration_ms = JUndefined,
         speaker = JUndefined, is_final = False\<rparr>],
      final_proc_time_ms = JNum 10, total_proc_time_ms = JNum 20, speakers = []\<rparr>)
     = [\<lparr>word_text = JStr ''a'', start_ms = JUndefined, duration_ms = JUndefined,
         speaker = JUndefined, is_final = True\<rparr>,
        \<lparr>word_text = JStr ''b'', start_ms = JUndefined, duration_ms = JUndefined,
         speaker = JUndefined, is_final = True\<rparr>,
        \<lparr>word_text = JStr ''c'', start_ms = JUndefined, duration_ms = JUndefined,
         speaker = JUndefined, is_final = False\<rparr>]"
proof -
  have h: "resultFromResponse
     (JObj [(''fw'', JArr [JObj [(''t'', JStr ''b'')]]), (''nfw'', JArr [JObj [(''t'', JStr ''c'')]]),
            (''fpt'', JNum 10), (''tpt'', JNum 20)])
   = Inr \<lparr>words = [\<lparr>word_text = JStr ''b'', start_ms = JUndefined, duration_ms = JUndefined,
         speaker = JUndefined, is_final = True\<rparr>,
        \<lparr>word_text = JStr ''c'', start_ms = JUndefined, duration_ms = JUndefined,
         speaker = JUndefined, is_final = False\<rparr>],
      final_proc_time_ms = JNum 10, total_proc_time_ms = JNum 20, speakers = []\<rparr>"
    by (simp add: resultFromResponse_def wordFromJson_def and_then_def)
  show ?thesis
    using h updateResult_merge [OF h, of
        "\<lparr>words = [\<lparr>word_text = JStr ''a'', start_ms = JUndefined, duration_ms = JUndefined,
         speaker = JUndefined, is_final = True\<rparr>,
        \<lparr>word_text = JStr ''x'', start_ms = JUndefined, duration_ms = JUndefined,
         speaker = JUndefined, is_final = False\<rparr>],
      final_proc_time_ms = JNum 1, total_proc_time_ms = JNum 2, speakers = []\<rparr>" "[]"]
    by simp
qed

section \<open>Properties of the session\<close>

lemma onMediaRecorderData_opening:
  assumes "state (this c) = OpeningWebSocket" and "queuedMessages (this c) = Some q"
  shows "onMediaRecorderData data c =
           (if length q < 100
            then (Returned, c\<lparr>this := (this c)\<lparr>queuedMessages := Some (q @ [data])\<rparr>\<rparr>)
            else (Returned, c\<lparr>trace := trace c @ [ConsoleError ''max queuedMessages size exceeded'']\<rparr>))"
  using assms by (simp add: onMediaRecorderData_def emit_def)

lemma send_queued_trace:
  "send_queued q c = c\<lparr>trace := trace c @ map (\<lambda>m. WebSocketSend (Binary m)) q\<rparr>"
  by (induction q arbitrary: c) (simp_all add: emit_def)

lemma onGetUserMediaSuccess_opening:
  "state (this c) = RequestingMedia \<Longrightarrow>
     onGetUserMediaSuccess rate c =
       (Returned,
        c\<lparr>this := (this c)\<lparr>stream := Some (), mediaRecorder := Some (MediaRecorder rate),
                           webSocket := Some (webSocketUri (this c)),
                           queuedMessages := Some [], state := OpeningWebSocket\<rparr>,
          trace := trace c @ [NewMediaRecorder, MediaRecorderStart,
                              NewWebSocket (webSocketUri (this c))]\<rparr>)"
  by (simp add: onGetUserMediaSuccess_def emit_def Let_def)

lemma map_of_if_Nil: "map_of (if b then xs else []) k = (if b then map_of xs k else None)"
  by simp

lemma request_api_key:
  "map_of (request s rate) ''api_key'' = Some (case apiKey s of None \<Rightarrow> JNull | Some k \<Rightarrow> JStr k)"
  by (simp add: request_def)

lemma request_sample_rate_hertz:
  "map_of (request s rate) ''sample_rate_hertz'' = Some (JNum (of_int (round rate)))"
  by (simp add: request_def round_def)

lemma request_include_nonfinal:
  "map_of (request s rate) ''include_nonfinal'' = Some (JBool (includeNonFinal s))"
  by (simp add: request_def)

lemma request_speech_context:
  "map_of (request s rate) ''speech_context'' = Some (speechContext s)"
  by (simp add: request_def)

lemma request_enable_endpoint_detection:
  "map_of (request s rate) ''enable_endpoint_detection''
     = (if enableEndpointDetection s then Some (JBool True) else None)"
  by (simp add: request_def map_add_def map_of_if_Nil)

lemma request_enable_streaming_speaker_diarization:
  "map_of (request s rate) ''enable_streaming_speaker_diarization''
     = (if enableStreamingSpeakerDiarization s then Some (JBool True) else None)"
  by (simp add: request_def map_add_def map_of_if_Nil)

lemma request_enable_global_speaker_diarization:
  "map_of (request s rate) ''enable_global_speaker_diarization''
     = (if enableGlobalSpeakerDiarization s then Some (JBool True) else None)"
  by (simp add: request_def map_add_def map_of_if_Nil)

lemma request_min_num_speakers:
  "map_of (request s rate) ''min_num_speakers''
     = (if minNumSpeakers s \<noteq> 0 then Some (JNum (of_int (minNumSpeakers s))) else None)"
  by (simp add: request_def map_add_def map_of_if_Nil)

lemma request_max_num_speakers:
  "map_of (request s rate) ''max_num_speakers''
     = (if maxNumSpeakers s \<noteq> 0 then Some (JNum (of_int (maxNumSpeakers s))) else None)"
  by (simp add: request_def map_add_def map_of_if_Nil)

lemma request_enable_speaker_identification:
  "map_of (request s rate) ''enable_speaker_identification''
     = (if enableSpeakerIdentification s then Some (JBool True) else None)"
  by (simp add: request_def map_add_def map_of_if_Nil)

lemma request_cand_speaker_names:
  "map_of (request s rate) ''cand_speaker_names''
     = (if enableSpeakerIdentification s then Some (JArr (map JStr (candSpeakerNames s))) else None)"
  by (simp add: request_def map_add_def map_of_if_Nil)

lemma request_enable_profanity_filter:
  "map_of (request s rate) ''enable_profanity_filter''
     = (if enableProfanityFilter s then Some (JBool True) else None)"
  by (simp add: request_def map_add_def map_of_if_Nil)

lemma request_content_moderation_phrases:
  "map_of (request s rate) ''content_moderation_phrases''
     = (if contentModerationPhrases s \<noteq> []
        then Some (JArr (map JStr (contentModerationPhrases s))) else None)"
  by (simp add: request_def map_add_def map_of_if_Nil)

lemma request_enable_dictation:
  "map_of (request s rate) ''enable_dictation''
     = (if enableDictation s then Some (JBool True) else None)"
  by (simp add: request_def map_add_def map_of_if_Nil)

lemma request_model:
  "map_of (request s rate) ''model'' = (if model s \<noteq> [] then Some (JStr (model s)) else None)"
  by (simp add: request_def map_add_def map_of_if_Nil)

lemma onWebSocketOpen_opening:
  assumes "state (this c) = OpeningWebSocket" and "mediaRecorder (this c) = Some mr"
    and "webSocket (this c) = Some ws" and "queuedMessages (this c) = Some q"
  shows "onWebSocketOpen c =
           (Returned,
            c\<lparr>this := (this c)\<lparr>queuedMessages := None, state := Running\<rparr>,
              trace := trace c
                @ [WebSocketSend (Json (JObj (request (this c) (getSampleRate mr))))]
                @ map (\<lambda>m. WebSocketSend (Binary m)) q
                @ (if onStarted (this c) then [CallOnStarted] else [])\<rparr>)"
  using assms by (simp add: onWebSocketOpen_def Let_def send_queued_trace emit_def)

lemma onWebSocketOpen_other:
  "state (this c) \<noteq> OpeningWebSocket \<Longrightarrow> onWebSocketOpen c = (Returned, c)"
  by (simp add: onWebSocketOpen_def)

lemma not_tag_char_gt: "\<not> tag_char CHR ''>''"
  by (simp add: tag_char_def)

lemma takeWhile_eq_replicate:
  "takeWhile (\<lambda>x. x = c) xs = replicate (length (takeWhile (\<lambda>x. x = c) xs)) c"
  by (induction xs) simp_all

lemma dropWhile_spaces:
  assumes "msg = [] \<or> hd msg \<noteq> c"
  shows "dropWhile (\<lambda>x. x = c) (replicate n c @ msg) = msg"
proof -
  have "dropWhile (\<lambda>x. x = c) (replicate n c @ msg) = dropWhile (\<lambda>x. x = c) msg"
    by (induction n) simp_all
  also have "\<dots> = msg"
    using assms by (cases msg) auto
  finally show ?thesis .
qed

lemma exec_Nil: "StatusMessageRegex_exec [] = None"
  by (simp add: StatusMessageRegex_exec_def)

lemma exec_Cons:
  "StatusMessageRegex_exec (c # r) =
     (if c \<noteq> CHR ''<'' \<or> takeWhile tag_char r = [] then None
      else (case dropWhile tag_char r of
              [] \<Rightarrow> None
            | d # r' \<Rightarrow>
                if d \<noteq> CHR ''>'' then None
                else if dropWhile (\<lambda>x. x = CHR '' '') r' = []
                        \<or> list_all (\<lambda>x. \<not> line_terminator x) (tl (dropWhile (\<lambda>x. x = CHR '' '') r'))
                     then Some (takeWhile tag_char r, dropWhile (\<lambda>x. x = CHR '' '') r')
                     else None))"
  by (simp add: StatusMessageRegex_exec_def Let_def cong: if_cong list.case_cong)

lemma exec_Some_shape:
  assumes m: "StatusMessageRegex_exec reason = Some (tag, msg)"
  shows "\<exists>r r'. reason = CHR ''<'' # r \<and> tag = takeWhile tag_char r \<and> tag \<noteq> []
           \<and> dropWhile tag_char r = CHR ''>'' # r'
           \<and> msg = dropWhile (\<lambda>x. x = CHR '' '') r'
           \<and> (msg = [] \<or> list_all (\<lambda>x. \<not> line_terminator x) (tl msg))"
proof (cases reason)
  case Nil
  with m show ?thesis by (simp add: exec_Nil)
next
  case (Cons c r)
  note reason = Cons
  from m reason have c: "c = CHR ''<''" and t: "takeWhile tag_char r \<noteq> []"
    by (simp_all add: exec_Cons split: if_splits)
  show ?thesis
  proof (cases "dropWhile tag_char r")
    case Nil
    with m reason c t show ?thesis by (simp add: exec_Cons)
  next
    case (Cons d r')
    from m reason c t Cons have d: "d = CHR ''>''"
      by (simp add: exec_Cons split: if_splits)
    from m reason c t Cons d have
      "tag = takeWhile tag_char r" "msg = dropWhile (\<lambda>x. x = CHR '' '') r'"
      "dropWhile (\<lambda>x. x = CHR '' '') r' = []
        \<or> list_all (\<lambda>x. \<not> line_terminator x) (tl (dropWhile (\<lambda>x. x = CHR '' '') r'))"
      by (simp_all add: exec_Cons split: if_splits)
    with reason c t Cons d show ?thesis by blast
  qed
qed

lemma StatusMessageRegex_exec_grammar:
  "(StatusMessageRegex_exec reason = Some (tag, msg)) =
     (tag \<noteq> [] \<and> list_all tag_char tag
      \<and> (msg = [] \<or> hd msg \<noteq> CHR '' '' \<and> list_all (\<lambda>x. \<not> line_terminator x) (tl msg))
      \<and> (\<exists>n. reason = CHR ''<'' # tag @ CHR ''>'' # replicate n (CHR '' '') @ msg))"
proof
  assume "StatusMessageRegex_exec reason = Some (tag, msg)"
  from exec_Some_shape [OF this] obtain r r' where
    r: "reason = CHR ''<'' # r" and tag: "tag = takeWhile tag_char r" "tag \<noteq> []"
    and r': "dropWhile tag_char r = CHR ''>'' # r'"
    and msg: "msg = dropWhile (\<lambda>x. x = CHR '' '') r'"
      "msg = [] \<or> list_all (\<lambda>x. \<not> line_terminator x) (tl msg)"
    by blast
  have "r = takeWhile tag_char r @ dropWhile tag_char r"
    by simp
  then have r_eq: "r = tag @ CHR ''>'' # r'"
    using tag(1) r' by simp
  have "r' = takeWhile (\<lambda>x. x = CHR '' '') r' @ dropWhile (\<lambda>x. x = CHR '' '') r'"
    by simp
  then have "r' = replicate (length (takeWhile (\<lambda>x. x = CHR '' '') r')) (CHR '' '') @ msg"
    using msg(1) takeWhile_eq_replicate [of "CHR '' ''" r'] by simp
  with r r_eq have shape: "\<exists>n. reason = CHR ''<'' # tag @ CHR ''>'' # replicate n (CHR '' '') @ msg"
    by blast
  have tc: "list_all tag_char tag"
    unfolding tag(1) list_all_iff by (blast dest: set_takeWhileD)
  have hd: "msg = [] \<or> hd msg \<noteq> CHR '' ''"
    unfolding msg(1) using hd_dropWhile [of "\<lambda>x. x = CHR '' ''" r'] by blast
  show "tag \<noteq> [] \<and> list_all tag_char tag
      \<and> (msg = [] \<or> hd msg \<noteq> CHR '' '' \<and> list_all (\<lambda>x. \<not> line_terminator x) (tl msg))
      \<and> (\<exists>n. reason = CHR ''<'' # tag @ CHR ''>'' # replicate n (CHR '' '') @ msg)"
    using tag(2) tc hd msg(2) shape by blast
next
  assume a: "tag \<noteq> [] \<and> list_all tag_char tag
      \<and> (msg = [] \<or> hd msg \<noteq> CHR '' '' \<and> list_all (\<lambda>x. \<not> line_terminator x) (tl msg))
      \<and> (\<exists>n. reason = CHR ''<'' # tag @ CHR ''>'' # replicate n (CHR '' '') @ msg)"
  then obtain n where reason: "reason = CHR ''<'' # tag @ CHR ''>'' # replicate n (CHR '' '') @ msg"
    by blast
  from a have ne: "tag \<noteq> []" and all: "\<forall>x\<in>set tag. tag_char x"
    and m1: "msg = [] \<or> hd msg \<noteq> CHR '' ''"
    and m2: "msg = [] \<or> list_all (\<lambda>x. \<not> line_terminator x) (tl msg)"
    by (auto simp: list_all_iff)
  let ?rest = "replicate n (CHR '' '') @ msg"
  have tw: "takeWhile tag_char (tag @ CHR ''>'' # ?rest) = tag"
    using all not_tag_char_gt by (simp add: takeWhile_append2)
  have dw: "dropWhile tag_char (tag @ CHR ''>'' # ?rest) = CHR ''>'' # ?rest"
    using all not_tag_char_gt by (simp add: dropWhile_append2)
  have sp: "dropWhile (\<lambda>x. x = CHR '' '') ?rest = msg"
    using m1 by (rule dropWhile_spaces)
  note e = exec_Cons [of "CHR ''<''" "tag @ CHR ''>'' # ?rest", unfolded tw dw list.case sp]
  have "StatusMessageRegex_exec (CHR ''<'' # tag @ CHR ''>'' # ?rest) = Some (tag, msg)"
    using ne m2 by (simp add: e)
  with reason show "StatusMessageRegex_exec reason = Some (tag, msg)"
    by simp
qed

lemma closeWebSocket_spec:
  "closeWebSocket c =
     c\<lparr>this := (this c)\<lparr>webSocket := None\<rparr>,
       trace := trace c @ (if webSocket (this c) = None then [] else [WebSocketClose])\<rparr>"
  by (cases "webSocket (this c)") (simp_all add: closeWebSocket_def emit_def Let_def)

lemma closeMedia_spec:
  "closeMedia c =
     c\<lparr>this := (this c)\<lparr>mediaRecorder := None, stream := None\<rparr>,
       trace := trace c
         @ (if mediaRecorder (this c) = None then []
            else [MediaRecorderStop, MediaRecorderTerminateWorker])
         @ (if stream (this c) = None then [] else [StopTracks])\<rparr>"
  by (cases "mediaRecorder (this c)"; cases "stream (this c)")
    (simp_all add: closeMedia_def emit_def Let_def)

lemma closeResources_spec:
  "closeResources c =
     c\<lparr>this := (this c)\<lparr>webSocket := None, mediaRecorder := None, stream := None,
                          queuedMessages := None\<rparr>,
       trace := trace c
         @ (if webSocket (this c) = None then [] else [WebSocketClose])
         @ (if mediaRecorder (this c) = None then []
            else [MediaRecorderStop, MediaRecorderTerminateWorker])
         @ (if stream (this c) = None then [] else [StopTracks])\<rparr>"
  by (simp add: closeResources_def closeMedia_spec closeWebSocket_spec Let_def)

lemma handleError_spec:
  "handleError status message c =
     c\<lparr>this := (this c)\<lparr>webSocket := None, mediaRecorder := None, stream := None,
                          queuedMessages := None, state := Error\<rparr>,
       recordTranscribeActive := False,
       trace := trace (closeResources c)
         @ (if onError (this c) then [CallOnError status message] else [])\<rparr>"
  by (simp add: handleError_def closeResources_spec Let_def emit_def)

lemma handleFinished_spec:
  "handleFinished c =
     c\<lparr>this := (this c)\<lparr>webSocket := None, mediaRecorder := None, stream := None,
                          queuedMessages := None, state := Finished\<rparr>,
       recordTranscribeActive := False,
       trace := trace (closeResources c)
         @ (if onFinished (this c) then [CallOnFinished] else [])\<rparr>"
  by (simp add: handleFinished_def closeResources_spec Let_def emit_def)

lemma close_ignored:
  "\<not> isWebSocketState (state (this c)) \<longrightarrow> onWebSocketClose code reason c = (Returned, c)"
  by (simp add: onWebSocketClose_def)

lemma close_eof_finished:
  "isWebSocketState (state (this c)) \<and> code = 1000
     \<and> StatusMessageRegex_exec reason = Some (''eof'', msg)
     \<and> state (this c) = FinishingProcessing \<longrightarrow>
   onWebSocketClose code reason c = (Returned, handleFinished c)"
  by (auto simp: onWebSocketClose_def)

lemma close_eof_unexpected:
  "isWebSocketState (state (this c)) \<and> code = 1000
     \<and> StatusMessageRegex_exec reason = Some (''eof'', msg)
     \<and> state (this c) \<noteq> FinishingProcessing \<longrightarrow>
   onWebSocketClose code reason c
     = (Returned, handleError ''other_asr_error'' ''Unexpected EOF received.'' c)"
  by (simp add: onWebSocketClose_def)

lemma close_other_tag:
  "isWebSocketState (state (this c)) \<and> code = 1000
     \<and> StatusMessageRegex_exec reason = Some (tag, msg) \<and> tag \<noteq> ''eof'' \<longrightarrow>
   onWebSocketClose code reason c = (Returned, handleError tag msg c)"
  by (simp add: onWebSocketClose_def)

lemma close_no_match:
  "isWebSocketState (state (this c)) \<and> code = 1000 \<and> StatusMessageRegex_exec reason = None \<longrightarrow>
   onWebSocketClose code reason c = (Returned, handleError ''other_asr_error'' reason c)"
  by (simp add: onWebSocketClose_def)

lemma close_abnormal:
  "isWebSocketState (state (this c)) \<and> code \<noteq> 1000 \<longrightarrow>
   onWebSocketClose code reason c
     = (Returned,
        handleError ''websocket_closed''
          (''WebSocket closed: code='' @ decimal code @ '', reason='' @ reason) c)"
  by (simp add: onWebSocketClose_def)

lemma handleFinished_state: "state (this (handleFinished c)) = Finished"
  by (simp add: handleFinished_spec)

lemma handleFinished_active: "\<not> recordTranscribeActive (handleFinished c)"
  by (simp add: handleFinished_spec)

lemma handleFinished_trace:
  "trace (handleFinished c)
     = trace (closeResources c) @ (if onFinished (this c) then [CallOnFinished] else [])"
  by (simp add: handleFinished_spec)

lemma handleError_state: "state (this (handleError status message c)) = Error"
  by (simp add: handleError_spec)

lemma handleError_active: "\<not> recordTranscribeActive (handleError status message c)"
  by (simp add: handleError_spec)

lemma handleError_trace:
  "trace (handleError status message c)
     = trace (closeResources c) @ (if onError (this c) then [CallOnError status message] else [])"
  by (simp add: handleError_spec)

lemma spec_close_reason_grammar_iff:
  "spec_close_reason_grammar reason tag msg = (StatusMessageRegex_exec reason = Some (tag, msg))"
proof -
  have "list_ex (\<lambda>n. reason = CHR ''<'' # tag @ CHR ''>'' # replicate n (CHR '' '') @ msg)
            [0..<Suc (length reason)]
        = (\<exists>n. reason = CHR ''<'' # tag @ CHR ''>'' # replicate n (CHR '' '') @ msg)"
  proof
    assume "list_ex (\<lambda>n. reason = CHR ''<'' # tag @ CHR ''>'' # replicate n (CHR '' '') @ msg)
            [0..<Suc (length reason)]"
    then show "\<exists>n. reason = CHR ''<'' # tag @ CHR ''>'' # replicate n (CHR '' '') @ msg"
      unfolding list_ex_iff by blast
  next
    assume "\<exists>n. reason = CHR ''<'' # tag @ CHR ''>'' # replicate n (CHR '' '') @ msg"
    then obtain n where n: "reason = CHR ''<'' # tag @ CHR ''>'' # replicate n (CHR '' '') @ msg"
      by blast
    then have "length reason = Suc (length tag + Suc (n + length msg))"
      by simp
    then have "n \<in> set [0..<Suc (length reason)]"
      by simp
    with n show "list_ex (\<lambda>n. reason = CHR ''<'' # tag @ CHR ''>'' # replicate n (CHR '' '') @ msg)
            [0..<Suc (length reason)]"
      unfolding list_ex_iff by blast
  qed
  then show ?thesis
    unfolding spec_close_reason_grammar_def spec_claimed_grammar_def StatusMessageRegex_exec_grammar
    by blast
qed

lemma no_grammar_iff:
  "(\<forall>tag msg. \<not> spec_close_reason_grammar reason tag msg) = (StatusMessageRegex_exec reason = None)"
proof (cases "StatusMessageRegex_exec reason")
  case None
  then show ?thesis by (simp add: spec_close_reason_grammar_iff)
next
  case (Some p)
  then show ?thesis by (cases p) (auto simp: spec_close_reason_grammar_iff)
qed

subsection \<open>Claims about the session\<close>

text \<open>
  C6. While the session is in state OpeningWebSocket with a pending queue of at most 100
  frames (the queue is empty when the state is entered), delivering any sequence of frames
  never throws, leaves the session in OpeningWebSocket, and leaves in the queue the first
  100 frames of the old queue followed by the delivered frames, in order: a frame is
  appended while the queue holds fewer than 100, and every later frame is dropped with one
  console error each. Nothing else of the session changes. Since this holds for every
  sequence, it holds after every prefix of one: the queue never holds more than 100.
\<close>

theorem pending_queue_bounded:
  assumes "state (this c) = OpeningWebSocket" and "queuedMessages (this c) = Some q"
    and "length q \<le> 100"
  shows "deliver frames c =
           (Returned,
            c\<lparr>this := (this c)\<lparr>queuedMessages := Some (take 100 (q @ frames))\<rparr>,
              trace := trace c @ replicate (length (q @ frames) - 100)
                                   (ConsoleError ''max queuedMessages size exceeded'')\<rparr>)"
  using assms
proof (induction frames arbitrary: c q)
  case Nil
  then show ?case by simp
next
  case (Cons data rest)
  show ?case
  proof (cases "length q < 100")
    case True
    let ?c = "c\<lparr>this := (this c)\<lparr>queuedMessages := Some (q @ [data])\<rparr>\<rparr>"
    have step: "onMediaRecorderData data c = (Returned, ?c)"
      using onMediaRecorderData_opening [OF Cons.prems(1,2)] True by simp
    have "deliver rest ?c =
           (Returned,
            ?c\<lparr>this := (this ?c)\<lparr>queuedMessages := Some (take 100 ((q @ [data]) @ rest))\<rparr>,
              trace := trace ?c @ replicate (length ((q @ [data]) @ rest) - 100)
                                   (ConsoleError ''max queuedMessages size exceeded'')\<rparr>)"
      using Cons.prems True by (intro Cons.IH) simp_all
    with step show ?thesis by simp
  next
    case False
    with Cons.prems have full: "length q = 100" by simp
    let ?c = "c\<lparr>trace := trace c @ [ConsoleError ''max queuedMessages size exceeded'']\<rparr>"
    have step: "onMediaRecorderData data c = (Returned, ?c)"
      using onMediaRecorderData_opening [OF Cons.prems(1,2)] False by simp
    have "deliver rest ?c =
           (Returned,
            ?c\<lparr>this := (this ?c)\<lparr>queuedMessages := Some (take 100 (q @ rest))\<rparr>,
              trace := trace ?c @ replicate (length (q @ rest) - 100)
                                   (ConsoleError ''max queuedMessages size exceeded'')\<rparr>)"
      using Cons.prems by (intro Cons.IH) simp_all
    with step full show ?thesis
      by (simp add: replicate_append_same)
  qed
qed


theorem pending_queue_bounded_witness:
  "deliver [[1], [2], [3]]
     \<lparr>this = new_RecordTranscribe\<lparr>state := OpeningWebSocket,
                                    queuedMessages := Some (replicate 99 [0])\<rparr>,
      recordTranscribeActive = True, trace = []\<rparr>
   = (Returned,
      \<lparr>this = new_RecordTranscribe\<lparr>state := OpeningWebSocket,
                                     queuedMessages := Some (replicate 99 [0] @ [[1]])\<rparr>,
       recordTranscribeActive = True,
       trace = [ConsoleError ''max queuedMessages size exceeded'',
                ConsoleError ''max queuedMessages size exceeded'']\<rparr>)"
  using pending_queue_bounded [of
      "\<lparr>this = new_RecordTranscribe\<lparr>state := OpeningWebSocket,
                                     queuedMessages := Some (replicate 99 [0])\<rparr>,
        recordTranscribeActive = True, trace = []\<rparr>"
      "replicate 99 [0]" "[[1], [2], [3]]"]
  by (simp add: numeral_2_eq_2)

text \<open>
  C8. \<open>start()\<close> returns exactly when the session is in state Init, no session is active
  and the API key is set; it then requests the microphone, sets the global flag and moves
  the session to RequestingMedia. Otherwise it throws a string to the caller and changes
  nothing: not the session, not the global flag, no callback is invoked; on a page with
  several sessions, the page is unchanged. In every case the other sessions of the page
  are unchanged.
\<close>

theorem start_usage:
  "(fst (start c) = Returned)
     = (state (this c) = Init \<and> \<not> recordTranscribeActive c \<and> apiKey (this c) \<noteq> None)
   \<and> (state (this c) = Init \<and> \<not> recordTranscribeActive c \<and> apiKey (this c) \<noteq> None \<longrightarrow>
        start c = (Returned,
                   c\<lparr>this := (this c)\<lparr>state := RequestingMedia\<rparr>,
                     recordTranscribeActive := True,
                     trace := trace c @ [GetUserMedia]\<rparr>))
   \<and> (\<not> (state (this c) = Init \<and> \<not> recordTranscribeActive c \<and> apiKey (this c) \<noteq> None) \<longrightarrow>
        (\<exists>msg. start c = (Threw (Thrown msg), c)))
   \<and> (i < length (sessions pg)
        \<and> \<not> (state (sessions pg ! i) = Init \<and> \<not> active pg \<and> apiKey (sessions pg ! i) \<noteq> None) \<longrightarrow>
        (\<exists>msg. invoke start i pg = (Threw (Thrown msg), pg)))
   \<and> (j \<noteq> i \<longrightarrow> sessions (snd (invoke start i pg)) ! j = sessions pg ! j)"
  by (auto simp: start_def invoke_def emit_def Let_def)

theorem start_usage_witness:
  "invoke start 0
     \<lparr>sessions = [new_RecordTranscribe\<lparr>apiKey := Some ''key''\<rparr>,
                  new_RecordTranscribe\<lparr>apiKey := Some ''key''\<rparr>],
      active = False, effects = []\<rparr>
   = (Returned,
      \<lparr>sessions = [new_RecordTranscribe\<lparr>apiKey := Some ''key'', state := RequestingMedia\<rparr>,
                   new_RecordTranscribe\<lparr>apiKey := Some ''key''\<rparr>],
       active = True, effects = [GetUserMedia]\<rparr>)
   \<and> invoke start 1
     \<lparr>sessions = [new_RecordTranscribe\<lparr>apiKey := Some ''key'', state := RequestingMedia\<rparr>,
                  new_RecordTranscribe\<lparr>apiKey := Some ''key''\<rparr>],
      active = True, effects = [GetUserMedia]\<rparr>
   = (Threw (Thrown ''only one RecordTranscribe may be active at a time''),
      \<lparr>sessions = [new_RecordTranscribe\<lparr>apiKey := Some ''key'', state := RequestingMedia\<rparr>,
                   new_RecordTranscribe\<lparr>apiKey := Some ''key''\<rparr>],
       active = True, effects = [GetUserMedia]\<rparr>)"
  using start_usage [of
      "\<lparr>this = new_RecordTranscribe\<lparr>apiKey := Some ''key''\<rparr>,
        recordTranscribeActive = False, trace = []\<rparr>" 1
      "\<lparr>sessions = [new_RecordTranscribe\<lparr>apiKey := Some ''key'', state := RequestingMedia\<rparr>,
                    new_RecordTranscribe\<lparr>apiKey := Some ''key''\<rparr>],
        active = True, effects = [GetUserMedia]\<rparr>" 0]
  by (simp add: invoke_def new_RecordTranscribe_def start_def)

text \<open>
  C10. While the session is in state Running, FinishingRecording or FinishingProcessing, a
  message whose text \<open>JSON.parse\<close> rejects, or whose parsed value has no array \<open>fw\<close> or no
  array \<open>nfw\<close>, makes \<open>_onWebSocketMessage\<close> throw with everything unchanged: the state,
  the Result, the global flag, and the effects performed (no callback is invoked).
\<close>

theorem onWebSocketMessage_malformed:
  assumes "state (this c) = Running \<or> state (this c) = FinishingRecording
           \<or> state (this c) = FinishingProcessing"
    and "JSON_parse data = None
         \<or> (\<exists>response. JSON_parse data = Some response
               \<and> ((\<forall>fws. getprop response ''fw'' \<noteq> Inr (JArr fws))
                    \<or> (\<forall>nfws. getprop response ''nfw'' \<noteq> Inr (JArr nfws))))"
  shows "\<exists>e. onWebSocketMessage JSON_parse data c = (Threw e, c)"
proof (cases "JSON_parse data")
  case None
  with assms(1) show ?thesis
    by (auto simp: onWebSocketMessage_def)
next
  case (Some response)
  with assms(2) have "(\<forall>fws. getprop response ''fw'' \<noteq> Inr (JArr fws))
                    \<or> (\<forall>nfws. getprop response ''nfw'' \<noteq> Inr (JArr nfws))"
    by simp
  then obtain e where "resultFromResponse response = Inl e"
    using resultFromResponse_needs_arrays [of response]
    by (cases "resultFromResponse response") auto
  with Some assms(1) show ?thesis
    by (auto simp: onWebSocketMessage_def)
qed


theorem onWebSocketMessage_malformed_witness:
  "onWebSocketMessage (\<lambda>s. if s = ''{}'' then Some (JObj []) else None) ''{''
     \<lparr>this = new_RecordTranscribe\<lparr>state := Running, onPartialResult := True, onError := True\<rparr>,
      recordTranscribeActive = True, trace = []\<rparr>
   = (Threw SyntaxError,
      \<lparr>this = new_RecordTranscribe\<lparr>state := Running, onPartialResult := True, onError := True\<rparr>,
       recordTranscribeActive = True, trace = []\<rparr>)
   \<and> onWebSocketMessage (\<lambda>s. if s = ''{}'' then Some (JObj []) else None) ''{}''
     \<lparr>this = new_RecordTranscribe\<lparr>state := Running, onPartialResult := True, onError := True\<rparr>,
      recordTranscribeActive = True, trace = []\<rparr>
   = (Threw TypeError,
      \<lparr>this = new_RecordTranscribe\<lparr>state := Running, onPartialResult := True, onError := True\<rparr>,
       recordTranscribeActive = True, trace = []\<rparr>)"
  using onWebSocketMessage_malformed [of
      "\<lparr>this = new_RecordTranscribe\<lparr>state := Running, onPartialResult := True, onError := True\<rparr>,
        recordTranscribeActive = True, trace = []\<rparr>"
      "\<lambda>s. if s = ''{}'' then Some (JObj []) else None" "''{''"]
    onWebSocketMessage_malformed [of
      "\<lparr>this = new_RecordTranscribe\<lparr>state := Running, onPartialResult := True, onError := True\<rparr>,
        recordTranscribeActive = True, trace = []\<rparr>"
      "\<lambda>s. if s = ''{}'' then Some (JObj []) else None" "''{}''"]
  by (simp add: onWebSocketMessage_def resultFromResponse_def and_then_def new_RecordTranscribe_def)

text \<open>
  C7. On a transport open event in state OpeningWebSocket (where the recorder, the socket
  and the queue are the ones set when the state was entered), \<open>_onWebSocketOpen\<close> sends
  first exactly one handshake message, the JSON text of the request object, then every
  queued frame in queue order; it clears the queue, sets the state to Running and then
  calls the started callback when one is registered. In any other state it changes
  nothing. The request object has \<open>api_key\<close>, \<open>sample_rate_hertz\<close> (the sample rate of
  the recorder rounded to an integer), \<open>include_nonfinal\<close> and \<open>speech_context\<close>, and has each
  optional field exactly when its configured value is not the default: the flags when
  true, the speaker counts when nonzero, \<open>cand_speaker_names\<close> when speaker identification
  is enabled, the moderation phrases and the model when nonempty.
\<close>

theorem onWebSocketOpen_handshake:
  "(state (this c) = OpeningWebSocket \<and> mediaRecorder (this c) = Some mr
      \<and> webSocket (this c) = Some ws \<and> queuedMessages (this c) = Some q \<longrightarrow>
      onWebSocketOpen c =
        (Returned,
         c\<lparr>this := (this c)\<lparr>queuedMessages := None, state := Running\<rparr>,
           trace := trace c
             @ [WebSocketSend (Json (JObj (request (this c) (getSampleRate mr))))]
             @ map (\<lambda>m. WebSocketSend (Binary m)) q
             @ (if onStarted (this c) then [CallOnStarted] else [])\<rparr>))
   \<and> (state (this c) \<noteq> OpeningWebSocket \<longrightarrow> onWebSocketOpen c = (Returned, c))
   \<and> map_of (request s rate) ''api_key'' = Some (case apiKey s of None \<Rightarrow> JNull | Some k \<Rightarrow> JStr k)
   \<and> map_of (request s rate) ''sample_rate_hertz'' = Some (JNum (of_int (round rate)))
   \<and> map_of (request s rate) ''include_nonfinal'' = Some (JBool (includeNonFinal s))
   \<and> map_of (request s rate) ''speech_context'' = Some (speechContext s)
   \<and> map_of (request s rate) ''enable_endpoint_detection''
       = (if enableEndpointDetection s then Some (JBool True) else None)
   \<and> map_of (request s rate) ''enable_streaming_speaker_diarization''
       = (if enableStreamingSpeakerDiarization s then Some (JBool True) else None)
   \<and> map_of (request s rate) ''enable_global_speaker_diarization''
       = (if enableGlobalSpeakerDiarization s then Some (JBool True) else None)
   \<and> map_of (request s rate) ''min_num_speakers''
       = (if minNumSpeakers s \<noteq> 0 then Some (JNum (of_int (minNumSpeakers s))) else None)
   \<and> map_of (request s rate) ''max_num_speakers''
       = (if maxNumSpeakers s \<noteq> 0 then Some (JNum (of_int (maxNumSpeakers s))) else None)
   \<and> map_of (request s rate) ''enable_speaker_identification''
       = (if enableSpeakerIdentification s then Some (JBool True) else None)
   \<and> map_of (request s rate) ''cand_speaker_names''
       = (if enableSpeakerIdentification s then Some (JArr (map JStr (candSpeakerNames s))) else None)
   \<and> map_of (request s rate) ''enable_profanity_filter''
       = (if enableProfanityFilter s then Some (JBool True) else None)
   \<and> map_of (request s rate) ''content_moderation_phrases''
       = (if contentModerationPhrases s \<noteq> []
          then Some (JArr (map JStr (contentModerationPhrases s))) else None)
   \<and> map_of (request s rate) ''enable_dictation''
       = (if enableDictation s then Some (JBool True) else None)
   \<and> map_of (request s rate) ''model'' = (if model s \<noteq> [] then Some (JStr (model s)) else None)"
  using onWebSocketOpen_opening [of c mr ws q] onWebSocketOpen_other [of c]
  by (simp only: request_api_key request_sample_rate_hertz request_include_nonfinal
      request_speech_context request_enable_endpoint_detection
      request_enable_streaming_speaker_diarization request_enable_global_speaker_diarization
      request_min_num_speakers request_max_num_speakers request_enable_speaker_identification
      request_cand_speaker_names request_enable_profanity_filter
      request_content_moderation_phrases request_enable_dictation request_model) blast

theorem onWebSocketOpen_handshake_witness:
  "onWebSocketOpen
     \<lparr>this = new_RecordTranscribe\<lparr>state := OpeningWebSocket, apiKey := Some ''key'',
              enableDictation := True, model := ''en'', onStarted := True,
              mediaRecorder := Some (MediaRecorder 48000), webSocket := Some ''wss://x'',
              queuedMessages := Some [[1], [2]]\<rparr>,
      recordTranscribeActive = True, trace = []\<rparr>
   = (Returned,
      \<lparr>this = new_RecordTranscribe\<lparr>state := Running, apiKey := Some ''key'',
              enableDictation := True, model := ''en'', onStarted := True,
              mediaRecorder := Some (MediaRecorder 48000), webSocket := Some ''wss://x'',
              queuedMessages := None\<rparr>,
       recordTranscribeActive = True,
       trace = [WebSocketSend (Json (JObj
                  [(''api_key'', JStr ''key''), (''sample_rate_hertz'', JNum 48000),
                   (''include_nonfinal'', JBool False), (''speech_context'', JObj []),
                   (''enable_dictation'', JBool True), (''model'', JStr ''en'')])),
                WebSocketSend (Binary [1]), WebSocketSend (Binary [2]), CallOnStarted]\<rparr>)"
proof -
  have r: "\<lfloor>(48000 :: rat) + 1 / 2\<rfloor> = 48000"
    by code_simp
  show ?thesis
    using onWebSocketOpen_handshake [of
      "\<lparr>this = new_RecordTranscribe\<lparr>state := OpeningWebSocket, apiKey := Some ''key'',
              enableDictation := True, model := ''en'', onStarted := True,
              mediaRecorder := Some (MediaRecorder 48000), webSocket := Some ''wss://x'',
              queuedMessages := Some [[1], [2]]\<rparr>,
        recordTranscribeActive = True, trace = []\<rparr>"
      "MediaRecorder 48000" "''wss://x''" "[[1], [2]]" new_RecordTranscribe 0] r
    by (simp add: new_RecordTranscribe_def request_def)
qed

text \<open>
  C1 (amended). On a transport close event in a state with a transport (OpeningWebSocket,
  Running, FinishingRecording, FinishingProcessing): with close code 1000 and a reason of
  the form \<open><tag>\<close>, spaces, message, where the tag is a nonempty run of letters, digits,
  \<open>_\<close> and \<open>-\<close> and the message is empty or starts with a character other than a space
  and has no line terminator after its first character, and with tag \<open>eof\<close>, the session
  finishes when its state is FinishingProcessing, and otherwise fails with status
  \<open>other_asr_error\<close> and message \<open>Unexpected EOF received.\<close>; with code 1000 and a reason
  not of that form, it fails with status \<open>other_asr_error\<close> and the reason as message (with
  another tag than \<open>eof\<close>, with the tag as status and the message as message); with any
  other code it fails with status \<open>websocket_closed\<close> and a message that holds the code and
  the reason. Finishing and failing release the resources, set the state Finished or
  Error, clear the global flag and call the finished or the error callback when one is
  registered, the latter with the status and the message. In any other state the event
  changes nothing. The reasons of that form are exactly those \<open>StatusMessageRegex\<close> matches.
\<close>

theorem onWebSocketClose_outcome:
  "(\<not> isWebSocketState (state (this c)) \<longrightarrow> onWebSocketClose code reason c = (Returned, c))
   \<and> (isWebSocketState (state (this c)) \<and> code = 1000
        \<and> spec_close_reason_grammar reason ''eof'' msg
        \<and> state (this c) = FinishingProcessing \<longrightarrow>
      onWebSocketClose code reason c = (Returned, handleFinished c))
   \<and> (isWebSocketState (state (this c)) \<and> code = 1000
        \<and> spec_close_reason_grammar reason ''eof'' msg
        \<and> state (this c) \<noteq> FinishingProcessing \<longrightarrow>
      onWebSocketClose code reason c
        = (Returned, handleError ''other_asr_error'' ''Unexpected EOF received.'' c))
   \<and> (isWebSocketState (state (this c)) \<and> code = 1000
        \<and> spec_close_reason_grammar reason tag msg \<and> tag \<noteq> ''eof'' \<longrightarrow>
      onWebSocketClose code reason c = (Returned, handleError tag msg c))
   \<and> (isWebSocketState (state (this c)) \<and> code = 1000
        \<and> (\<forall>tag msg. \<not> spec_close_reason_grammar reason tag msg) \<longrightarrow>
      onWebSocketClose code reason c = (Returned, handleError ''other_asr_error'' reason c))
   \<and> (isWebSocketState (state (this c)) \<and> code \<noteq> 1000 \<longrightarrow>
      onWebSocketClose code reason c
        = (Returned,
           handleError ''websocket_closed''
             (''WebSocket closed: code='' @ decimal code @ '', reason='' @ reason) c))
   \<and> state (this (handleFinished c)) = Finished
   \<and> \<not> recordTranscribeActive (handleFinished c)
   \<and> trace (handleFinished c)
       = trace (closeResources c) @ (if onFinished (this c) then [CallOnFinished] else [])
   \<and> state (this (handleError status message c)) = Error
   \<and> \<not> recordTranscribeActive (handleError status message c)
   \<and> trace (handleError status message c)
       = trace (closeResources c) @ (if onError (this c) then [CallOnError status message] else [])
   \<and> spec_close_reason_grammar reason tag msg = (StatusMessageRegex_exec reason = Some (tag, msg))"
  unfolding no_grammar_iff
  by (intro conjI, rule close_ignored,
      rule close_eof_finished [unfolded spec_close_reason_grammar_iff [symmetric]],
      rule close_eof_unexpected [unfolded spec_close_reason_grammar_iff [symmetric]],
      rule close_other_tag [unfolded spec_close_reason_grammar_iff [symmetric]],
      rule close_no_match, rule close_abnormal,
      rule handleFinished_state, rule handleFinished_active, rule handleFinished_trace,
      rule handleError_state, rule handleError_active, rule handleError_trace,
      rule spec_close_reason_grammar_iff)


theorem onWebSocketClose_outcome_witness:
  "onWebSocketClose 1000 ''<eof> done''
     \<lparr>this = new_RecordTranscribe\<lparr>state := FinishingProcessing, onFinished := True,
                                    onError := True, webSocket := Some ''wss://x''\<rparr>,
      recordTranscribeActive = True, trace = []\<rparr>
   = (Returned,
      \<lparr>this = new_RecordTranscribe\<lparr>state := Finished, onFinished := True, onError := True\<rparr>,
       recordTranscribeActive = False, trace = [WebSocketClose, CallOnFinished]\<rparr>)
   \<and> onWebSocketClose 1000 ''<eof> done''
     \<lparr>this = new_RecordTranscribe\<lparr>state := Running, onFinished := True,
                                    onError := True, webSocket := Some ''wss://x''\<rparr>,
      recordTranscribeActive = True, trace = []\<rparr>
   = (Returned,
      \<lparr>this = new_RecordTranscribe\<lparr>state := Error, onFinished := True, onError := True\<rparr>,
       recordTranscribeActive = False,
       trace = [WebSocketClose, CallOnError ''other_asr_error'' ''Unexpected EOF received.'']\<rparr>)
   \<and> onWebSocketClose 1000 ''<quota>  gone''
     \<lparr>this = new_RecordTranscribe\<lparr>state := Running, onFinished := True,
                                    onError := True, webSocket := Some ''wss://x''\<rparr>,
      recordTranscribeActive = True, trace = []\<rparr>
   = (Returned,
      \<lparr>this = new_RecordTranscribe\<lparr>state := Error, onFinished := True, onError := True\<rparr>,
       recordTranscribeActive = False,
       trace = [WebSocketClose, CallOnError ''quota'' ''gone'']\<rparr>)
   \<and> onWebSocketClose 1000 ''bye''
     \<lparr>this = new_RecordTranscribe\<lparr>state := Running, onFinished := True,
                                    onError := True, webSocket := Some ''wss://x''\<rparr>,
      recordTranscribeActive = True, trace = []\<rparr>
   = (Returned,
      \<lparr>this = new_RecordTranscribe\<lparr>state := Error, onFinished := True, onError := True\<rparr>,
       recordTranscribeActive = False,
       trace = [WebSocketClose, CallOnError ''other_asr_error'' ''bye'']\<rparr>)
   \<and> onWebSocketClose 1006 []
     \<lparr>this = new_RecordTranscribe\<lparr>state := Running, onFinished := True,
                                    onError := True, webSocket := Some ''wss://x''\<rparr>,
      recordTranscribeActive = True, trace = []\<rparr>
   = (Returned,
      \<lparr>this = new_RecordTranscribe\<lparr>state := Error, onFinished := True, onError := True\<rparr>,
       recordTranscribeActive = False,
       trace = [WebSocketClose,
                CallOnError ''websocket_closed'' ''WebSocket closed: code=1006, reason='']\<rparr>)
   \<and> onWebSocketClose 1000 ''<eof> done''
     \<lparr>this = new_RecordTranscribe\<lparr>state := Canceled, onFinished := True, onError := True\<rparr>,
      recordTranscribeActive = False, trace = []\<rparr>
   = (Returned,
      \<lparr>this = new_RecordTranscribe\<lparr>state := Canceled, onFinished := True, onError := True\<rparr>,
       recordTranscribeActive = False, trace = []\<rparr>)"
proof -
  let ?fp = "\<lparr>this = new_RecordTranscribe\<lparr>state := FinishingProcessing, onFinished := True,
                                    onError := True, webSocket := Some ''wss://x''\<rparr>,
      recordTranscribeActive = True, trace = []\<rparr>"
  let ?run = "\<lparr>this = new_RecordTranscribe\<lparr>state := Running, onFinished := True,
                                    onError := True, webSocket := Some ''wss://x''\<rparr>,
      recordTranscribeActive = True, trace = []\<rparr>"
  let ?can = "\<lparr>this = new_RecordTranscribe\<lparr>state := Canceled, onFinished := True, onError := True\<rparr>,
      recordTranscribeActive = False, trace = []\<rparr>"
  have m1: "StatusMessageRegex_exec ''<eof> done'' = Some (''eof'', ''done'')"
    by code_simp
  have m2: "StatusMessageRegex_exec ''<quota>  gone'' = Some (''quota'', ''gone'')"
    by code_simp
  have m3: "StatusMessageRegex_exec ''bye'' = None"
    by code_simp
  have d: "decimal 1006 = ''1006''"
    by code_simp
  have g1: "spec_close_reason_grammar ''<eof> done'' ''eof'' ''done''"
    by code_simp
  have g2: "spec_close_reason_grammar ''<quota>  gone'' ''quota'' ''gone''"
    by code_simp
  have g3: "\<forall>tag msg. \<not> spec_close_reason_grammar ''bye'' tag msg"
    using m3 by (simp only: no_grammar_iff)
  have s: "isWebSocketState FinishingProcessing" "isWebSocketState Running"
    "\<not> isWebSocketState Canceled"
    by (simp_all add: isWebSocketState_def)
  show ?thesis
    using onWebSocketClose_outcome [of ?fp 1000 "''<eof> done''" "''done''" "''eof''"]
      onWebSocketClose_outcome [of ?run 1000 "''<eof> done''" "''done''" "''eof''"]
      onWebSocketClose_outcome [of ?run 1000 "''<quota>  gone''" "''gone''" "''quota''"]
      onWebSocketClose_outcome [of ?run 1000 "''bye''" "[]" "[]"]
      onWebSocketClose_outcome [of ?run 1006 "[]" "[]" "[]"]
      onWebSocketClose_outcome [of ?can 1000 "''<eof> done''" "''done''" "''eof''"]
    by (simp add: g1 g2 g3 m1 m2 m3 d s handleError_spec handleFinished_spec
        closeResources_spec new_RecordTranscribe_def)
qed

text \<open>
  The claim as stated fails for a message with a line terminator after its first
  character: the reason \<open><eof> done\<close> followed by a line feed has the form \<open><tag>\<close>,
  spaces, message with tag \<open>eof\<close>, and with code 1000 in state FinishingProcessing the
  session does not finish: it fails with status \<open>other_asr_error\<close> and the reason as
  message.
\<close>

theorem onWebSocketClose_newline_counterexample:
  "spec_claimed_grammar (''<eof> done'' @ [CHR 0x0A]) ''eof'' (''done'' @ [CHR 0x0A])
   \<and> onWebSocketClose 1000 (''<eof> done'' @ [CHR 0x0A])
     \<lparr>this = new_RecordTranscribe\<lparr>state := FinishingProcessing, onFinished := True,
                                    onError := True, webSocket := Some ''wss://x''\<rparr>,
      recordTranscribeActive = True, trace = []\<rparr>
   = (Returned,
      \<lparr>this = new_RecordTranscribe\<lparr>state := Error, onFinished := True, onError := True\<rparr>,
       recordTranscribeActive = False,
       trace = [WebSocketClose,
                CallOnError ''other_asr_error'' (''<eof> done'' @ [CHR 0x0A])]\<rparr>)"
proof -
  have g: "spec_claimed_grammar (''<eof> done'' @ [CHR 0x0A]) ''eof'' (''done'' @ [CHR 0x0A])"
    by code_simp
  have m: "StatusMessageRegex_exec (''<eof> done'' @ [CHR 0x0A]) = None"
    by code_simp
  have s: "isWebSocketState FinishingProcessing"
    by (simp add: isWebSocketState_def)
  show ?thesis
    using g m s
    by (simp add: onWebSocketClose_def handleError_spec closeResources_spec new_RecordTranscribe_def)
qed

end
